theory Spec2Isabelle
  imports Main
begin

section \<open>Data model of \<^verbatim>\<open>views/notebook.js\<close>\<close>

text \<open>
  The notebook view coordinates an ordered Backbone collection of cell models, the DOM
  children of its element and the cell views.  JavaScript objects are shared by reference;
  the model names every cell by the \<^verbatim>\<open>cid\<close> that Backbone gives its model, and a view, its
  model and its DOM element are all referred to by that one number.

  A cell view is either a \<^verbatim>\<open>CodeView\<close>, whose model has type \<^verbatim>\<open>'code'\<close>, or a
  \<^verbatim>\<open>TextView\<close>, whose model has type \<^verbatim>\<open>'text'\<close>; both are \<^verbatim>\<open>EditorView\<close>s.  The
  element of the notebook has the elements of the cell views as its only children.

  The handlers of \<^verbatim>\<open>clone\<close>, \<^verbatim>\<open>switch\<close> and \<^verbatim>\<open>browseDown\<close>, and the methods
  \<^verbatim>\<open>remove\<close>, \<^verbatim>\<open>fork\<close> and \<^verbatim>\<open>appendTo\<close> of the notebook, are not needed for the
  properties below and are not modelled; neither is the listener of the gist's \<^verbatim>\<open>sync\<close>
  event, which only navigates.
\<close>

datatype cell_type = Code | Text

record cell =
  cid :: nat
  ctype :: cell_type
  cvalue :: string
  uniqueCellId :: "nat option"

text \<open>What can be thrown: dereferencing \<^verbatim>\<open>undefined\<close>.\<close>

datatype js_error = TypeError

text \<open>The \<^verbatim>\<open>(err, result)\<close> pair with which the sandbox completes one execution.\<close>

datatype outcome = Failed string | Succeeded string

text \<open>
  Calls that leave the notebook: on a cell's widget, on the sandbox (through
  \<^verbatim>\<open>view.execute\<close>), on the completion callback of \<^verbatim>\<open>execute\<close> and on the router.
  They are recorded in call order.
\<close>

datatype call =
    Focus nat
  | MoveCursorToEnd nat "nat option"
  | SandboxExecute nat string
  | Callback nat
  | BrowseToCell nat nat
  | RenderEditor nat
  | Navigate string bool

text \<open>
  The gist model, an external collaborator: what its methods answer, the notebook text it
  holds, and the text of every \<^verbatim>\<open>save(null, { patch: true })\<close> request it was handed.
\<close>

record gist =
  gist_isNew :: bool
  gist_isOwner :: bool
  gist_notebook :: string
  gist_saves :: "string list"
  gist_fetching :: bool

text \<open>
  One \<^verbatim>\<open>Notebook\<close> instance.  \<^verbatim>\<open>serializeForGist\<close> and \<^verbatim>\<open>deserializeFromGist\<close> are
  methods of the collection whose code is not part of this file; they are carried as
  fields, so every theorem holds for any serializer.  \<^verbatim>\<open>inflight\<close> holds the
  continuations handed to \<^verbatim>\<open>view.execute\<close> that the sandbox has not called yet: the view
  and the callback \<^verbatim>\<open>cb\<close> that the closure captured.  \<^verbatim>\<open>appended\<close> is a history
  variable: every view that went through \<^verbatim>\<open>appendView\<close>, in call order, as it was mounted.
  The counter \<^verbatim>\<open>_uniqueId\<close> is a JavaScript number; it is exact on the integers below
  \<open>2^53\<close>, which no run reaches, and is modelled as a natural number.
\<close>

record notebook =
  uniqueId :: nat
  rendering :: bool
  execution :: bool
  loading :: bool
  userId :: "nat option"
  gist :: gist
  collection :: "cell list"
  childNodes :: "nat list"
  serializeForGist :: "cell list \<Rightarrow> string"
  deserializeFromGist :: "string \<Rightarrow> (cell_type \<times> string) list"
  inflight :: "(nat \<times> nat option) list"
  calls :: "call list"
  appended :: "cell list"

text \<open>
  The page.  \<^verbatim>\<open>saveGist\<close> is created once, when the module is loaded, by
  \<^verbatim>\<open>_.debounce(..., 500)\<close>: its timer and the \<^verbatim>\<open>this\<close> of its last call belong to the
  module, not to an instance.  \<open>debounce\<close> is \<open>Some (ctx, ms)\<close> while the timer runs,
  with the instance of the last call and the milliseconds left.  \<open>idCounter\<close> is the
  global counter from which Backbone draws the \<^verbatim>\<open>cid\<close> of a new model.
\<close>

record process =
  debounce :: "(nat \<times> nat) option"
  idCounter :: nat
  instances :: "nat \<Rightarrow> notebook"

definition upd :: "nat \<Rightarrow> (notebook \<Rightarrow> notebook) \<Rightarrow> process \<Rightarrow> process" where
  "upd this f w = w\<lparr>instances := (instances w)(this := f (instances w this))\<rparr>"

definition log_call :: "nat \<Rightarrow> call \<Rightarrow> process \<Rightarrow> process" where
  "log_call this c = upd this (\<lambda>nb. nb\<lparr>calls := calls nb @ [c]\<rparr>)"

section \<open>Lists: the collection and the DOM children\<close>

text \<open>\<^verbatim>\<open>Array.prototype.indexOf\<close>: the first position of an element, if any.\<close>

fun indexOf :: "nat list \<Rightarrow> nat \<Rightarrow> nat option" where
  "indexOf [] x = None"
| "indexOf (y # ys) x = (if x = y then Some 0 else map_option Suc (indexOf ys x))"

text \<open>\<^verbatim>\<open>collection.at(i)\<close>: \<^verbatim>\<open>undefined\<close> out of range.\<close>

definition at :: "cell list \<Rightarrow> nat \<Rightarrow> cell option" where
  "at coll i = (if i < length coll then Some (coll ! i) else None)"

text \<open>\<^verbatim>\<open>collection.get(cid)\<close> and \<^verbatim>\<open>collection.last()\<close>.\<close>

definition get :: "cell list \<Rightarrow> nat \<Rightarrow> cell option" where
  "get coll c = find (\<lambda>m. cid m = c) coll"

definition last_model :: "cell list \<Rightarrow> cell option" where
  "last_model coll = (if coll = [] then None else Some (last coll))"

text \<open>
  Modelled from the spec: the collection's \<^verbatim>\<open>getNext\<close> and \<^verbatim>\<open>getPrev\<close>
  (\<^verbatim>\<open>collections/notebook.js\<close> is not among the sources): "return the adjacent cell in
  registry order, or none at the boundaries".  A model that is not in the collection has
  no neighbour.
\<close>

definition getNext :: "cell list \<Rightarrow> nat \<Rightarrow> cell option" where
  "getNext coll m =
     (case indexOf (map cid coll) m of None \<Rightarrow> None | Some i \<Rightarrow> at coll (Suc i))"

definition getPrev :: "cell list \<Rightarrow> nat \<Rightarrow> cell option" where
  "getPrev coll m =
     (case indexOf (map cid coll) m of
        None \<Rightarrow> None
      | Some 0 \<Rightarrow> None
      | Some (Suc i) \<Rightarrow> at coll i)"

text \<open>
  Modelled from the spec: the collection's comparator (\<^verbatim>\<open>collections/notebook.js\<close>):
  \<^verbatim>\<open>sort\<close> "re-derives registry order from the live presentation order".  A model is
  ranked by the position of its element among the DOM children; the sort is stable, and a
  model whose element is not mounted comes first.
\<close>

definition dom_position :: "nat list \<Rightarrow> cell \<Rightarrow> nat" where
  "dom_position els m = (case indexOf els (cid m) of None \<Rightarrow> 0 | Some i \<Rightarrow> Suc i)"

definition sort_by_dom :: "nat list \<Rightarrow> cell list \<Rightarrow> cell list" where
  "sort_by_dom els coll = sort_key (dom_position els) coll"

text \<open>
  DOM: \<^verbatim>\<open>el.previousSibling\<close>, \<^verbatim>\<open>el.nextSibling\<close>, \<^verbatim>\<open>parent.lastChild\<close>,
  \<^verbatim>\<open>parent.appendChild(el)\<close>, \<^verbatim>\<open>parent.insertBefore(el, ref)\<close>.  Inserting a node that is
  already mounted moves it.  \<^verbatim>\<open>insertAfter(el, ref)\<close> is \<^verbatim>\<open>lib/insert-after\<close>, modelled
  from the spec ("immediately after"): a reference that is not a child of the notebook
  leaves the notebook's children as they are.
\<close>

definition previousSibling :: "nat list \<Rightarrow> nat \<Rightarrow> nat option" where
  "previousSibling els el =
     (case indexOf els el of
        None \<Rightarrow> None
      | Some 0 \<Rightarrow> None
      | Some (Suc i) \<Rightarrow> Some (els ! i))"

definition nextSibling :: "nat list \<Rightarrow> nat \<Rightarrow> nat option" where
  "nextSibling els el =
     (case indexOf els el of
        None \<Rightarrow> None
      | Some i \<Rightarrow> (if Suc i < length els then Some (els ! Suc i) else None))"

definition lastChild :: "nat list \<Rightarrow> nat option" where
  "lastChild els = (if els = [] then None else Some (last els))"

definition appendChild :: "nat \<Rightarrow> nat list \<Rightarrow> nat list" where
  "appendChild el els = remove1 el els @ [el]"

fun insert_before :: "nat \<Rightarrow> nat \<Rightarrow> nat list \<Rightarrow> nat list" where
  "insert_before el ref [] = []"
| "insert_before el ref (y # ys) =
     (if y = ref then el # y # ys else y # insert_before el ref ys)"

fun insert_after :: "nat \<Rightarrow> nat \<Rightarrow> nat list \<Rightarrow> nat list" where
  "insert_after el ref [] = []"
| "insert_after el ref (y # ys) =
     (if y = ref then y # el # ys else y # insert_after el ref ys)"

definition insertBefore :: "nat \<Rightarrow> nat \<Rightarrow> nat list \<Rightarrow> nat list" where
  "insertBefore el ref els =
     (if ref \<in> set (remove1 el els) then insert_before el ref (remove1 el els) else els)"

definition insertAfter :: "nat \<Rightarrow> nat \<Rightarrow> nat list \<Rightarrow> nat list" where
  "insertAfter el ref els =
     (if ref \<in> set (remove1 el els) then insert_after el ref (remove1 el els) else els)"

section \<open>Saving: the debounced \<^verbatim>\<open>saveGist\<close> and \<^verbatim>\<open>Notebook.prototype.save\<close>\<close>

text \<open>
  \<^verbatim>\<open>trim.right\<close> of the \<^verbatim>\<open>trim\<close> package removes trailing white space (\<^verbatim>\<open>\s*$\<close>).  Of
  the 8-bit characters of the model, \<^verbatim>\<open>\s\<close> matches the space, the control characters 9
  to 13 and the no-break space, code 160.
\<close>

definition is_space :: "char \<Rightarrow> bool" where
  "is_space c = (of_char c \<in> {32 :: nat, 9, 10, 11, 12, 13, 160})"

definition trim_right :: "string \<Rightarrow> string" where
  "trim_right s = rev (dropWhile is_space (rev s))"

text \<open>JavaScript truthiness of \<^verbatim>\<open>this.user.id\<close>.\<close>

definition truthy_id :: "nat option \<Rightarrow> bool" where
  "truthy_id u = (case u of None \<Rightarrow> False | Some n \<Rightarrow> n \<noteq> 0)"

definition isOwner :: "nat \<Rightarrow> process \<Rightarrow> bool" where
  "isOwner this w = gist_isOwner (gist (instances w this))"

text \<open>
  The function wrapped by \<^verbatim>\<open>_.debounce\<close>, lines 20 to 28, run with \<^verbatim>\<open>this\<close>:
  \<^verbatim>\<open>
  if (!this.user.id || !this.isOwner()) { return; }
  var gist = this.collection.serializeForGist();
  if (!trim.right(gist)) { return; }
  this.gist.setNotebook(gist);
  this.gist.save(null, { patch: true });
  \<close>
\<close>

definition saveGist_fn :: "nat \<Rightarrow> process \<Rightarrow> process" where
  "saveGist_fn this w =
     (if \<not> truthy_id (userId (instances w this)) \<or> \<not> isOwner this w then w
      else let text = serializeForGist (instances w this) (collection (instances w this)) in
        if trim_right text = [] then w
        else upd this (\<lambda>nb. nb\<lparr>gist := (gist nb)\<lparr>gist_notebook := text,
                                   gist_saves := gist_saves (gist nb) @ [text]\<rparr>\<rparr>) w)"

text \<open>
  \<^verbatim>\<open>saveGist.call(this)\<close>: underscore's \<^verbatim>\<open>_.debounce(func, 500)\<close> postpones \<^verbatim>\<open>func\<close>
  until 500 ms have passed since the last call of the wrapper, and then runs it once with
  the \<^verbatim>\<open>this\<close> of that last call.  A call (re)starts the one timer of the module.
\<close>

definition saveGist :: "nat \<Rightarrow> process \<Rightarrow> process" where
  "saveGist this w = w\<lparr>debounce := Some (this, 500)\<rparr>"

text \<open>The passage of \<open>ms\<close> milliseconds in which no handler runs: the timer may expire.\<close>

definition elapse :: "nat \<Rightarrow> process \<Rightarrow> process" where
  "elapse ms w =
     (case debounce w of
        None \<Rightarrow> w
      | Some (ctx, left) \<Rightarrow>
          if ms < left then w\<lparr>debounce := Some (ctx, left - ms)\<rparr>
          else saveGist_fn ctx (w\<lparr>debounce := None\<rparr>))"

text \<open>
  Lines 57 to 60:
  \<^verbatim>\<open>
  Notebook.prototype.save = function () {
    if (!this.rendering) { saveGist.call(this); }
    return this;
  };
  \<close>
\<close>

definition save :: "nat \<Rightarrow> process \<Rightarrow> process" where
  "save this w = (if \<not> rendering (instances w this) then saveGist this w else w)"

section \<open>The collection's mutators and their events\<close>

text \<open>
  \<^verbatim>\<open>initialize\<close> binds \<^verbatim>\<open>this.save\<close> to the collection's \<^verbatim>\<open>remove\<close>, \<^verbatim>\<open>sort\<close> and
  \<^verbatim>\<open>change\<close> events (line 45), so each mutator below ends by calling \<open>save\<close> when
  Backbone raises its event.  \<^verbatim>\<open>push\<close> raises \<^verbatim>\<open>add\<close>, to which nothing listens; a model
  that is already in the collection is not added again.  \<^verbatim>\<open>remove\<close> of a model that is
  not in the collection raises nothing.
\<close>

definition collection_push :: "nat \<Rightarrow> cell \<Rightarrow> process \<Rightarrow> process" where
  "collection_push this m =
     upd this (\<lambda>nb. nb\<lparr>collection :=
       (if cid m \<in> set (map cid (collection nb)) then collection nb
        else collection nb @ [m])\<rparr>)"

definition collection_sort :: "nat \<Rightarrow> process \<Rightarrow> process" where
  "collection_sort this w =
     save this (upd this (\<lambda>nb. nb\<lparr>collection :=
       sort_by_dom (childNodes nb) (collection nb)\<rparr>) w)"

definition collection_remove :: "nat \<Rightarrow> nat \<Rightarrow> process \<Rightarrow> process" where
  "collection_remove this m w =
     (if m \<in> set (map cid (collection (instances w this)))
      then save this (upd this (\<lambda>nb. nb\<lparr>collection :=
             filter (\<lambda>c. cid c \<noteq> m) (collection nb)\<rparr>) w)
      else w)"

text \<open>A \<^verbatim>\<open>change\<close> event of the collection raised by a model: only the listener runs.\<close>

definition collection_change :: "nat \<Rightarrow> process \<Rightarrow> process" where
  "collection_change this w = save this w"

definition getNextView :: "nat \<Rightarrow> nat \<Rightarrow> process \<Rightarrow> nat option" where
  "getNextView this view w = map_option cid (getNext (collection (instances w this)) view)"

definition getPrevView :: "nat \<Rightarrow> nat \<Rightarrow> process \<Rightarrow> nat option" where
  "getPrevView this view w = map_option cid (getPrev (collection (instances w this)) view)"

text \<open>
  Widget calls: \<^verbatim>\<open>getValue\<close>, \<^verbatim>\<open>setValue\<close>, \<^verbatim>\<open>focus\<close>, \<^verbatim>\<open>moveCursorToEnd(line)\<close>.  A
  view that is not in the collection reads as empty.  Whether \<^verbatim>\<open>setValue\<close> also sets an
  attribute of the model, and so raises \<^verbatim>\<open>change\<close>, is decided in the widget's code,
  which is not among the sources: a \<^verbatim>\<open>change\<close> event is \<open>collection_change\<close>, raised on
  its own.
\<close>

definition getValue :: "nat \<Rightarrow> nat \<Rightarrow> process \<Rightarrow> string" where
  "getValue this view w =
     (case get (collection (instances w this)) view of None \<Rightarrow> [] | Some m \<Rightarrow> cvalue m)"

definition setValue :: "nat \<Rightarrow> nat \<Rightarrow> string \<Rightarrow> process \<Rightarrow> process" where
  "setValue this view v =
     upd this (\<lambda>nb. nb\<lparr>collection :=
       map (\<lambda>m. if cid m = view then m\<lparr>cvalue := v\<rparr> else m) (collection nb)\<rparr>)"

definition focus :: "nat \<Rightarrow> nat \<Rightarrow> process \<Rightarrow> process" where
  "focus this view = log_call this (Focus view)"

definition moveCursorToEnd :: "nat \<Rightarrow> nat \<Rightarrow> nat option \<Rightarrow> process \<Rightarrow> process" where
  "moveCursorToEnd this view line = log_call this (MoveCursorToEnd view line)"

section \<open>\<^verbatim>\<open>initialize\<close>, \<^verbatim>\<open>appendView\<close>, \<^verbatim>\<open>appendCodeView\<close>, \<^verbatim>\<open>appendTextView\<close>\<close>

text \<open>
  Lines 30 to 46.  The flags \<^verbatim>\<open>rendering\<close> and \<^verbatim>\<open>execution\<close> are not set by
  \<^verbatim>\<open>initialize\<close>: they read as \<^verbatim>\<open>undefined\<close>, which is false.  The collection is
  the gist's (\<^verbatim>\<open>this.gist.notebook\<close>), given here as \<open>coll\<close>; it is empty until views
  are appended.
\<close>

definition initialize ::
  "nat \<Rightarrow> nat option \<Rightarrow> gist \<Rightarrow> cell list \<Rightarrow> (cell list \<Rightarrow> string) \<Rightarrow>
   (string \<Rightarrow> (cell_type \<times> string) list) \<Rightarrow> process \<Rightarrow> process" where
  "initialize this user g coll ser deser w =
     w\<lparr>instances := (instances w)(this :=
        \<lparr>uniqueId = 0, rendering = False, execution = False, loading = False,
         userId = user, gist = g, collection = coll, childNodes = [],
         serializeForGist = ser, deserializeFromGist = deser,
         inflight = [], calls = [], appended = []\<rparr>)\<rparr>"

text \<open>\<^verbatim>\<open>new CodeView()\<close>, \<^verbatim>\<open>new TextView()\<close>: a view with a new model and no content.\<close>

definition new_view :: "cell_type \<Rightarrow> process \<Rightarrow> cell \<times> process" where
  "new_view ty w =
     (\<lparr>cid = idCounter w, ctype = ty, cvalue = [], uniqueCellId = None\<rparr>,
      w\<lparr>idCounter := Suc (idCounter w)\<rparr>)"

text \<open>
  Lines 180 to 328, without the listeners (they are the handlers of the next section):
  \<^verbatim>\<open>
  if (view.model.get('type') === 'code') {
    view.model._uniqueCellId = this._uniqueId++;
  }
  ...
  view.render().appendTo(_.bind(function (el) {
    return before ? insertAfter(el, before) : this.el.appendChild(el);
  }, this));
  this.collection.push(view.model);
  if (before) { this.collection.sort(); }
  \<close>
\<close>

definition assign_id :: "nat \<Rightarrow> cell \<Rightarrow> process \<Rightarrow> cell" where
  "assign_id this view w =
     (if ctype view = Code then view\<lparr>uniqueCellId := Some (uniqueId (instances w this))\<rparr>
      else view)"

definition appendView :: "nat \<Rightarrow> cell \<Rightarrow> nat option \<Rightarrow> process \<Rightarrow> process" where
  "appendView this view before w =
     (let m = assign_id this view w;
          w1 = (if ctype view = Code
                then upd this (\<lambda>nb. nb\<lparr>uniqueId := Suc (uniqueId nb)\<rparr>) w else w);
          w2 = upd this (\<lambda>nb. nb\<lparr>childNodes :=
                  (case before of
                     Some b \<Rightarrow> insertAfter (cid m) b (childNodes nb)
                   | None \<Rightarrow> appendChild (cid m) (childNodes nb)),
                  appended := appended nb @ [m]\<rparr>) w1;
          w3 = collection_push this m w2
      in if before \<noteq> None then collection_sort this w3 else w3)"

text \<open>
  Lines 166 to 178.  An absent \<^verbatim>\<open>value\<close> is the empty string.
\<close>

definition appendCodeView :: "nat \<Rightarrow> nat option \<Rightarrow> string \<Rightarrow> process \<Rightarrow> nat \<times> process" where
  "appendCodeView this el v w =
     (let (view, w1) = new_view Code w;
          w2 = appendView this view el w1
      in (cid view, moveCursorToEnd this (cid view) None (setValue this (cid view) v w2)))"

definition appendTextView :: "nat \<Rightarrow> nat option \<Rightarrow> string \<Rightarrow> process \<Rightarrow> nat \<times> process" where
  "appendTextView this el v w =
     (let (view, w1) = new_view Text w;
          w2 = appendView this view el w1
      in (cid view, moveCursorToEnd this (cid view) None (setValue this (cid view) v w2)))"

section \<open>The event handlers registered by \<^verbatim>\<open>appendView\<close>\<close>

text \<open>
  Lines 192 to 206:
  \<^verbatim>\<open>
  this.listenTo(view, 'moveUp', function (view) {
    if (!view.el.previousSibling) { return; }
    view.el.parentNode.insertBefore(view.el, view.el.previousSibling);
    view.focus();
    this.collection.sort();
  });
  this.listenTo(view, 'moveDown', function (view) {
    if (!view.el.nextSibling) { return; }
    insertAfter(view.el, view.el.nextSibling);
    view.focus();
    this.collection.sort();
  });
  \<close>
\<close>

definition on_moveUp :: "nat \<Rightarrow> nat \<Rightarrow> process \<Rightarrow> process" where
  "on_moveUp this view w =
     (case previousSibling (childNodes (instances w this)) view of
        None \<Rightarrow> w
      | Some p \<Rightarrow>
          collection_sort this (focus this view
            (upd this (\<lambda>nb. nb\<lparr>childNodes := insertBefore view p (childNodes nb)\<rparr>) w)))"

definition on_moveDown :: "nat \<Rightarrow> nat \<Rightarrow> process \<Rightarrow> process" where
  "on_moveDown this view w =
     (case nextSibling (childNodes (instances w this)) view of
        None \<Rightarrow> w
      | Some n \<Rightarrow>
          collection_sort this (focus this view
            (upd this (\<lambda>nb. nb\<lparr>childNodes := insertAfter view n (childNodes nb)\<rparr>) w)))"

text \<open>
  Lines 182 to 190:
  \<^verbatim>\<open>
  var prevView = this.getPrevView(view);
  if (prevView) { prevView.focus().moveCursorToEnd(); }
  ...
  var nextView = this.getNextView(view);
  if (nextView) { nextView.focus().moveCursorToEnd(0); }
  \<close>
\<close>

definition on_navigateUp :: "nat \<Rightarrow> nat \<Rightarrow> process \<Rightarrow> process" where
  "on_navigateUp this view w =
     (case getPrevView this view w of
        None \<Rightarrow> w
      | Some p \<Rightarrow> moveCursorToEnd this p None (focus this p w))"

definition on_navigateDown :: "nat \<Rightarrow> nat \<Rightarrow> process \<Rightarrow> process" where
  "on_navigateDown this view w =
     (case getNextView this view w of
        None \<Rightarrow> w
      | Some n \<Rightarrow> moveCursorToEnd this n (Some 0) (focus this n w))"

text \<open>
  Lines 217 to 225:
  \<^verbatim>\<open>
  this.listenTo(view, 'remove', function (view) {
    // If it's the last node in the document, append a new code cell
    if (this.el.childNodes.length < 2) { this.appendCodeView(view.el); }
    // Focus in on the next/previous cell
    var newView = this.getNextView(view) || this.getPrevView(view);
    if (newView) { newView.focus().moveCursorToEnd(); }
    // Need to remove the model from the collection
    this.collection.remove(view.model);
  });
  \<close>
\<close>

definition on_remove :: "nat \<Rightarrow> nat \<Rightarrow> process \<Rightarrow> process" where
  "on_remove this view w =
     (let w1 = (if length (childNodes (instances w this)) < 2
                then snd (appendCodeView this (Some view) [] w) else w);
          newView = (case getNextView this view w1 of
                       Some n \<Rightarrow> Some n
                     | None \<Rightarrow> getPrevView this view w1);
          w2 = (case newView of
                  None \<Rightarrow> w1
                | Some n \<Rightarrow> moveCursorToEnd this n None (focus this n w1))
      in collection_remove this view w2)"

text \<open>
  Modelled from the spec: the cell view's own \<^verbatim>\<open>remove()\<close> (\<^verbatim>\<open>views/view.js\<close> is not
  among the sources): "delete the cell from registry and presentation".  It raises the
  \<^verbatim>\<open>remove\<close> event and then takes the element out of the DOM; the handler above counts
  the element of the removed view among the children and inserts after it, so the event
  comes first.
\<close>

definition view_remove :: "nat \<Rightarrow> nat \<Rightarrow> process \<Rightarrow> process" where
  "view_remove this view w =
     upd this (\<lambda>nb. nb\<lparr>childNodes := remove1 view (childNodes nb)\<rparr>) (on_remove this view w)"

text \<open>
  Lines 248 to 258, for a \<^verbatim>\<open>TextView\<close>:
  \<^verbatim>\<open>
  this.listenTo(view, 'code', function (view, code) {
    if (code || this.el.lastChild === view.el) {
      this.appendCodeView(view.el, code);
    }
    this.getNextView(view).moveCursorToEnd(0).focus();
    if (!view.getValue()) { view.remove(); }
  });
  \<close>
  \<^verbatim>\<open>getNextView\<close> answers \<^verbatim>\<open>undefined\<close> when there is no next model; the call on it
  throws.
\<close>

definition on_code :: "nat \<Rightarrow> nat \<Rightarrow> string \<Rightarrow> process \<Rightarrow> (js_error \<times> process) + process" where
  "on_code this view code w =
     (let w1 = (if code \<noteq> [] \<or> lastChild (childNodes (instances w this)) = Some view
                then snd (appendCodeView this (Some view) code w) else w)
      in case getNextView this view w1 of
           None \<Rightarrow> Inl (TypeError, w1)
         | Some n \<Rightarrow>
             (let w2 = focus this n (moveCursorToEnd this n (Some 0) w1)
              in Inr (if getValue this view w2 = [] then view_remove this view w2 else w2)))"

text \<open>
  Lines 265 to 281, for a \<^verbatim>\<open>CodeView\<close>:
  \<^verbatim>\<open>
  this.listenTo(view, 'execute', function (view) {
    if (this.execution) { return; }
    if (this.el.lastChild === view.el) {
      this.appendCodeView().focus();
    } else {
      this.getNextView(view).moveCursorToEnd(0).focus();
    }
  });
  this.listenTo(view, 'text', function (view, text) {
    this.appendTextView(view.el, text).focus();
    if (!view.getValue()) { view.remove(); }
  });
  \<close>
\<close>

definition on_execute :: "nat \<Rightarrow> nat \<Rightarrow> process \<Rightarrow> (js_error \<times> process) + process" where
  "on_execute this view w =
     (if execution (instances w this) then Inr w
      else if lastChild (childNodes (instances w this)) = Some view
      then (let (n, w1) = appendCodeView this None [] w in Inr (focus this n w1))
      else (case getNextView this view w of
              None \<Rightarrow> Inl (TypeError, w)
            | Some n \<Rightarrow> Inr (focus this n (moveCursorToEnd this n (Some 0) w))))"

definition on_text :: "nat \<Rightarrow> nat \<Rightarrow> string \<Rightarrow> process \<Rightarrow> process" where
  "on_text this view text w =
     (let (n, w1) = appendTextView this (Some view) text w;
          w2 = focus this n w1
      in if getValue this view w2 = [] then view_remove this view w2 else w2)"

text \<open>
  Lines 283 to 293, for a \<^verbatim>\<open>CodeView\<close>:
  \<^verbatim>\<open>
  this.listenTo(view, 'browseUp', function (view, currentCid) {
    var model = this.collection.get(currentCid);
    while (model = this.collection.getPrev(model)) {
      if (model.get('type') === 'code') {
        view.browseToCell(model);
        view.moveCursorToEnd();
        break;
      }
    }
  });
  \<close>
  \<open>browse_prev\<close> is the loop: the model at which it breaks, if it does.  Each round
  moves to a model that stands earlier in the collection, so the loop ends.
\<close>

function browse_prev :: "cell list \<Rightarrow> nat \<Rightarrow> cell option" where
  "browse_prev coll m =
     (case getPrev coll m of
        None \<Rightarrow> None
      | Some p \<Rightarrow> if ctype p = Code then Some p else browse_prev coll (cid p))"
  by pat_completeness auto
termination
proof (relation "measure (\<lambda>(coll, m). case indexOf (map cid coll) m of None \<Rightarrow> 0 | Some i \<Rightarrow> i)")
  show "wf (measure (\<lambda>(coll, m). case indexOf (map cid coll) m of None \<Rightarrow> 0 | Some i \<Rightarrow> i))"
    by simp
next
  fix coll :: "cell list" and m :: nat and p :: cell
  assume prev: "getPrev coll m = Some p"
  have first_le: "\<exists>j. indexOf xs (xs ! i) = Some j \<and> j \<le> i"
    if "i < length xs" for xs :: "nat list" and i :: nat
    using that
  proof (induction xs arbitrary: i)
    case Nil
    then show ?case by simp
  next
    case (Cons y ys)
    show ?case
    proof (cases i)
      case 0
      then show ?thesis by simp
    next
      case (Suc k)
      with Cons.prems have "k < length ys" by simp
      from Cons.IH [OF this] obtain j where "indexOf ys (ys ! k) = Some j" and "j \<le> k"
        by blast
      with Suc show ?thesis by simp
    qed
  qed
  from prev obtain i where at_m: "indexOf (map cid coll) m = Some (Suc i)"
    and i: "i < length coll" and p: "p = coll ! i"
    by (auto simp: getPrev_def at_def split: option.splits nat.splits if_splits)
  from i have "i < length (map cid coll)" by simp
  from first_le [OF this] i obtain j
    where "indexOf (map cid coll) (cid (coll ! i)) = Some j" and "j \<le> i"
    by auto
  with at_m p
  show "((coll, cid p), (coll, m))
      \<in> measure (\<lambda>(coll, m). case indexOf (map cid coll) m of None \<Rightarrow> 0 | Some i \<Rightarrow> i)"
    by simp
qed

declare browse_prev.simps [simp del]

text \<open>
  Modelled from the spec: the widget's \<^verbatim>\<open>browseToCell(model)\<close> (\<^verbatim>\<open>views/cells/code.js\<close>
  is not among the sources): "make that cell show the located content".
\<close>

definition browseToCell :: "nat \<Rightarrow> nat \<Rightarrow> cell \<Rightarrow> process \<Rightarrow> process" where
  "browseToCell this view m w =
     log_call this (BrowseToCell view (cid m)) (setValue this view (cvalue m) w)"

definition on_browseUp :: "nat \<Rightarrow> nat \<Rightarrow> nat \<Rightarrow> process \<Rightarrow> process" where
  "on_browseUp this view currentCid w =
     (case get (collection (instances w this)) currentCid of
        None \<Rightarrow> w
      | Some model \<Rightarrow>
          (case browse_prev (collection (instances w this)) (cid model) of
             None \<Rightarrow> w
           | Some m \<Rightarrow> moveCursorToEnd this view None (browseToCell this view m w)))"

section \<open>\<^verbatim>\<open>Notebook.prototype.execute\<close>\<close>

text \<open>
  Modelled from the spec: the code view's \<^verbatim>\<open>execute(done)\<close> (\<^verbatim>\<open>views/cells/code.js\<close> is
  not among the sources): "invoke the ExecutionContext with the cell's content; suspend
  until it returns".  The call hands the content to the sandbox and returns; \<^verbatim>\<open>done\<close>
  stays in flight until the sandbox completes (\<open>resolve\<close> below).
\<close>

definition view_execute :: "nat \<Rightarrow> nat \<Rightarrow> nat option \<Rightarrow> process \<Rightarrow> process" where
  "view_execute this view cb w =
     upd this (\<lambda>nb. nb\<lparr>inflight := inflight nb @ [(view, cb)]\<rparr>)
       (log_call this (SandboxExecute view (getValue this view w)) w)"

text \<open>
  Lines 129 to 154:
  \<^verbatim>\<open>
  Notebook.prototype.execute = function (cb) {
    var that = this;
    this.execution = true;
    (function execution (view) {
      // If no view is passed through, we must have hit the last view
      if (!view) {
        that.execution = false;
        return cb && cb();
      }
      view.focus().moveCursorToEnd();
      if (view.model.get('type') === 'code') {
        view.execute(function (err, result) {
          execution(that.getNextView(view));
        });
      } else {
        execution(that.getNextView(view));
      }
    })(this.collection.at(0).view);
    return this;
  };
  \<close>
  \<open>execution_from\<close> is the inner function \<^verbatim>\<open>execution\<close>: it runs until it has handed a
  code cell to the sandbox or has passed the last view.  It follows \<^verbatim>\<open>getNextView\<close> on
  the live collection; not returning is the value \<open>None\<close>.
\<close>

definition finish_execution :: "nat \<Rightarrow> nat option \<Rightarrow> process \<Rightarrow> process" where
  "finish_execution this cb w =
     (let w1 = upd this (\<lambda>nb. nb\<lparr>execution := False\<rparr>) w
      in case cb of None \<Rightarrow> w1 | Some f \<Rightarrow> log_call this (Callback f) w1)"

definition is_code :: "nat \<Rightarrow> nat \<Rightarrow> process \<Rightarrow> bool" where
  "is_code this view w =
     (map_option ctype (get (collection (instances w this)) view) = Some Code)"

definition focus_end :: "nat \<Rightarrow> nat \<Rightarrow> process \<Rightarrow> process" where
  "focus_end this view w = moveCursorToEnd this view None (focus this view w)"

partial_function (option) execution_from ::
  "nat \<Rightarrow> nat option \<Rightarrow> nat option \<Rightarrow> process \<Rightarrow> process option" where
  "execution_from this cb view w =
     (case view of
        None \<Rightarrow> Some (finish_execution this cb w)
      | Some v \<Rightarrow>
          if is_code this v (focus_end this v w)
          then Some (view_execute this v cb (focus_end this v w))
          else execution_from this cb (getNextView this v (focus_end this v w))
                 (focus_end this v w))"

definition execute ::
  "nat \<Rightarrow> nat option \<Rightarrow> process \<Rightarrow> ((js_error \<times> process) + process) option" where
  "execute this cb w =
     (let w1 = upd this (\<lambda>nb. nb\<lparr>execution := True\<rparr>) w
      in case at (collection (instances w1 this)) 0 of
           None \<Rightarrow> Some (Inl (TypeError, w1))
         | Some m \<Rightarrow> map_option Inr (execution_from this cb (Some (cid m)) w1))"

text \<open>
  The sandbox completes the \<open>k\<close>-th call in flight with \<^verbatim>\<open>(err, result)\<close>: the
  continuation \<^verbatim>\<open>function (err, result) { execution(that.getNextView(view)); }\<close> runs.
\<close>

definition resolve :: "nat \<Rightarrow> nat \<Rightarrow> outcome \<Rightarrow> process \<Rightarrow> process option" where
  "resolve this k out w =
     (if k < length (inflight (instances w this))
      then (case inflight (instances w this) ! k of
              (view, cb) \<Rightarrow>
                (let w1 = upd this (\<lambda>nb. nb\<lparr>inflight :=
                            take k (inflight nb) @ drop (Suc k) (inflight nb)\<rparr>) w
                 in execution_from this cb (getNextView this view w1) w1))
      else Some w)"

text \<open>
  A run in which the sandbox completes each call before anything else happens: the
  outcomes are those of the successive calls.
\<close>

fun resolve_all :: "nat \<Rightarrow> outcome list \<Rightarrow> process \<Rightarrow> process option" where
  "resolve_all this [] w = Some w"
| "resolve_all this (out # outs) w =
     (case resolve this 0 out w of None \<Rightarrow> None | Some w' \<Rightarrow> resolve_all this outs w')"

section \<open>\<^verbatim>\<open>updateUser\<close> and \<^verbatim>\<open>render\<close>\<close>

text \<open>Lines 66 to 72.\<close>

definition updateUser :: "nat \<Rightarrow> process \<Rightarrow> process" where
  "updateUser this w =
     save this (foldl (\<lambda>w' m. log_call this (RenderEditor (cid m)) w') w
                  (collection (instances w this)))"

text \<open>
  Lines 74 to 127.  \<^verbatim>\<open>View.prototype.render\<close> is modelled from the spec ("clears
  presentation"; \<^verbatim>\<open>views/view.js\<close> is not among the sources).  \<^verbatim>\<open>gist.fetch\<close> returns at
  once; the store answers later with \<open>fetch_success\<close> or \<open>fetch_error\<close>.
\<close>

definition doneRendering :: "nat \<Rightarrow> process \<Rightarrow> process" where
  "doneRendering this = upd this (\<lambda>nb. nb\<lparr>rendering := False, loading := False\<rparr>)"

definition renderFromGist :: "nat \<Rightarrow> process \<Rightarrow> (js_error \<times> process) + process" where
  "renderFromGist this w =
     (let cells = deserializeFromGist (instances w this)
                    (gist_notebook (gist (instances w this)));
          w1 = foldl (\<lambda>w' (ty, v).
                 snd (if ty = Text then appendTextView this None v w'
                      else appendCodeView this None v w')) w cells;
          w2 = (if childNodes (instances w1 this) = []
                then snd (appendCodeView this None [] w1) else w1)
      in case last_model (collection (instances w2 this)) of
           None \<Rightarrow> Inl (TypeError, w2)
         | Some m \<Rightarrow> Inr (focus this (cid m) w2))"

definition View_render :: "nat \<Rightarrow> process \<Rightarrow> process" where
  "View_render this = upd this (\<lambda>nb. nb\<lparr>childNodes := []\<rparr>)"

definition render :: "nat \<Rightarrow> process \<Rightarrow> (js_error \<times> process) + process" where
  "render this w =
     (let w1 = View_render this (upd this (\<lambda>nb. nb\<lparr>rendering := True, loading := True\<rparr>) w)
      in if gist_isNew (gist (instances w1 this))
         then (case renderFromGist this (updateUser this w1) of
                 Inl e \<Rightarrow> Inl e
               | Inr w2 \<Rightarrow> Inr (log_call this (Navigate [] False) (doneRendering this w2)))
         else Inr (upd this (\<lambda>nb. nb\<lparr>gist := (gist nb)\<lparr>gist_fetching := True\<rparr>\<rparr>) w1))"

definition fetch_success ::
  "nat \<Rightarrow> string \<Rightarrow> bool \<Rightarrow> process \<Rightarrow> (js_error \<times> process) + process" where
  "fetch_success this fetched owner w =
     (let w1 = upd this (\<lambda>nb. nb\<lparr>gist := (gist nb)\<lparr>gist_fetching := False,
                   gist_isNew := False, gist_isOwner := owner, gist_notebook := fetched\<rparr>\<rparr>) w;
          w2 = upd this (\<lambda>nb. nb\<lparr>childNodes := []\<rparr>) (updateUser this w1)
      in case renderFromGist this w2 of
           Inl e \<Rightarrow> Inl e
         | Inr w3 \<Rightarrow> Inr (doneRendering this w3))"

definition fetch_error :: "nat \<Rightarrow> process \<Rightarrow> process" where
  "fetch_error this w =
     log_call this (Navigate [] True)
       (doneRendering this
          (upd this (\<lambda>nb. nb\<lparr>gist := (gist nb)\<lparr>gist_fetching := False\<rparr>\<rparr>) w))"

section \<open>Well-formed notebooks\<close>

text \<open>
  The invariant of the spec's data model: the models of the collection are distinct, the
  collection is in the order of the DOM children, and every \<^verbatim>\<open>cid\<close> in use was drawn
  from the global counter.
\<close>

definition well_formed :: "nat \<Rightarrow> process \<Rightarrow> bool" where
  "well_formed this w =
     (distinct (map cid (collection (instances w this))) \<and>
      childNodes (instances w this) = map cid (collection (instances w this)) \<and>
      list_all (\<lambda>m. cid m < idCounter w) (collection (instances w this)))"

section \<open>What can happen while an instance renders\<close>

text \<open>
  Between the two ends of \<^verbatim>\<open>render\<close> the collection may raise \<^verbatim>\<open>remove\<close>, \<^verbatim>\<open>sort\<close>
  and \<^verbatim>\<open>change\<close> (each ends in the listener \<^verbatim>\<open>save\<close>), and time may pass.
\<close>

datatype window_event = Removes nat | Sorts | Changes | Passes nat

fun window_step :: "nat \<Rightarrow> process \<Rightarrow> window_event \<Rightarrow> process" where
  "window_step this w (Removes m) = collection_remove this m w"
| "window_step this w Sorts = collection_sort this w"
| "window_step this w Changes = collection_change this w"
| "window_step this w (Passes ms) = elapse ms w"

definition window_run :: "nat \<Rightarrow> window_event list \<Rightarrow> process \<Rightarrow> process" where
  "window_run this evs w = foldl (window_step this) w evs"

text \<open>No call of \<^verbatim>\<open>saveGist\<close> made by the instance is waiting in the timer.\<close>

definition none_pending :: "nat \<Rightarrow> process \<Rightarrow> bool" where
  "none_pending this w = (case debounce w of None \<Rightarrow> True | Some (ctx, left) \<Rightarrow> ctx \<noteq> this)"

section \<open>The scan of \<^verbatim>\<open>browseUp\<close>, in the words of the spec\<close>

text \<open>
  "Linear scan backward through the registry from that reference, skipping non-code cells,
  stopping at the first code cell found": among the cells before position \<open>i\<close>, read
  from \<open>i\<close> back to the start, the first code cell.
\<close>

definition first_code_before :: "cell list \<Rightarrow> nat \<Rightarrow> cell option" where
  "first_code_before coll i = find (\<lambda>m. ctype m = Code) (rev (take i coll))"

text \<open>What the widget of \<open>view\<close> is asked to do once the scan has found \<open>m\<close>.\<close>

definition shows_cell :: "nat \<Rightarrow> nat \<Rightarrow> cell \<Rightarrow> process \<Rightarrow> process" where
  "shows_cell this view m w =
     upd this (\<lambda>nb. nb\<lparr>collection :=
         map (\<lambda>c. if cid c = view then c\<lparr>cvalue := cvalue m\<rparr> else c) (collection nb),
       calls := calls nb @ [BrowseToCell view (cid m), MoveCursorToEnd view None]\<rparr>) w"

section \<open>A full run of \<^verbatim>\<open>execute\<close>, in the words of the spec\<close>

text \<open>
  "For each cell: move focus to it, place cursor at end.  If variant is Code: invoke the
  ExecutionContext with the cell's content": the calls a run makes on the cells it
  visits, in order.
\<close>

fun visit_calls :: "cell list \<Rightarrow> call list" where
  "visit_calls [] = []"
| "visit_calls (m # ms) =
     [Focus (cid m), MoveCursorToEnd (cid m) None] @
     (if ctype m = Code then [SandboxExecute (cid m) (cvalue m)] else []) @
     visit_calls ms"

text \<open>The call of the completion callback, when one was given.\<close>

definition callback_calls :: "nat option \<Rightarrow> call list" where
  "callback_calls cb = (case cb of None \<Rightarrow> [] | Some f \<Rightarrow> [Callback f])"

text \<open>
  "If variant is Code: invoke the ExecutionContext with the cell's content; suspend until
  it returns; then continue to the next cell.  If variant is Text: advance immediately":
  once \<open>k\<close> calls have completed, the run has visited the cells up to and including the
  code cell number \<open>k + 1\<close> (all cells, when there are no more than \<open>k\<close> code cells),
  and it waits for that code cell, if there is one.
\<close>

fun visited :: "nat \<Rightarrow> cell list \<Rightarrow> cell list" where
  "visited k [] = []"
| "visited k (m # ms) =
     (if ctype m = Code then (case k of 0 \<Rightarrow> [m] | Suc j \<Rightarrow> m # visited j ms)
      else m # visited k ms)"

fun waiting :: "nat \<Rightarrow> cell list \<Rightarrow> cell option" where
  "waiting k [] = None"
| "waiting k (m # ms) =
     (if ctype m = Code then (case k of 0 \<Rightarrow> Some m | Suc j \<Rightarrow> waiting j ms)
      else waiting k ms)"

section \<open>Sequences of appends and removals\<close>

text \<open>
  What a caller may do to one instance: \<^verbatim>\<open>appendCodeView(el, value)\<close>,
  \<^verbatim>\<open>appendTextView(el, value)\<close>, and the \<^verbatim>\<open>remove()\<close> of a cell view.
\<close>

datatype op = AppendCode "nat option" string | AppendText "nat option" string | Remove nat

fun apply_op :: "nat \<Rightarrow> process \<Rightarrow> op \<Rightarrow> process" where
  "apply_op this w (AppendCode el v) = snd (appendCodeView this el v w)"
| "apply_op this w (AppendText el v) = snd (appendTextView this el v w)"
| "apply_op this w (Remove view) = view_remove this view w"

definition run_ops :: "nat \<Rightarrow> op list \<Rightarrow> process \<Rightarrow> process" where
  "run_ops this ops w = foldl (apply_op this) w ops"

text \<open>
  The unique ids given to the code views, and to the text views, that went through
  \<^verbatim>\<open>appendView\<close>, in call order; and the number of \<^verbatim>\<open>appendCodeView\<close> calls of a caller.
\<close>

definition code_ids :: "cell list \<Rightarrow> nat option list" where
  "code_ids vs = map uniqueCellId (filter (\<lambda>m. ctype m = Code) vs)"

definition text_ids :: "cell list \<Rightarrow> nat option list" where
  "text_ids vs = map uniqueCellId (filter (\<lambda>m. ctype m = Text) vs)"

fun is_append_code :: "op \<Rightarrow> bool" where
  "is_append_code (AppendCode el v) = True"
| "is_append_code (AppendText el v) = False"
| "is_append_code (Remove view) = False"

fun is_remove :: "op \<Rightarrow> bool" where
  "is_remove (AppendCode el v) = False"
| "is_remove (AppendText el v) = False"
| "is_remove (Remove view) = True"

text \<open>
  The ids given to the code cells of the caller's own \<^verbatim>\<open>appendCodeView\<close> calls, in call
  order: each call goes through \<^verbatim>\<open>appendView\<close> once, so its view is the last of the
  history when the call returns.
\<close>

fun caller_ids :: "nat \<Rightarrow> process \<Rightarrow> op list \<Rightarrow> nat option list" where
  "caller_ids this w [] = []"
| "caller_ids this w (x # xs) =
     (if is_append_code x
      then [uniqueCellId (last (appended (instances (apply_op this w x) this)))]
      else []) @ caller_ids this (apply_op this w x) xs"

text \<open>The invariant of the counter and the history of one instance.\<close>

definition ids_ok :: "nat \<Rightarrow> process \<Rightarrow> bool" where
  "ids_ok this w =
     (code_ids (appended (instances w this)) = map Some [0..<uniqueId (instances w this)] \<and>
      text_ids (appended (instances w this)) =
        replicate (length (text_ids (appended (instances w this)))) None)"

section \<open>Example notebooks\<close>

text \<open>
  Concrete pages for the closed instances below, built with the operations of the model.
  The example serializer concatenates the cells' contents.
\<close>

definition serialize_values :: "cell list \<Rightarrow> string" where
  "serialize_values coll = concat (map cvalue coll)"

definition owned_gist :: gist where
  "owned_gist = \<lparr>gist_isNew = False, gist_isOwner = True, gist_notebook = [],
     gist_saves = [], gist_fetching = False\<rparr>"

definition boot :: process where
  "boot = \<lparr>debounce = None, idCounter = 0,
     instances = (\<lambda>_. \<lparr>uniqueId = 0, rendering = False, execution = False, loading = False,
        userId = None, gist = owned_gist, collection = [], childNodes = [],
        serializeForGist = serialize_values, deserializeFromGist = (\<lambda>_. []),
        inflight = [], calls = [], appended = []\<rparr>)\<rparr>"

definition empty_notebook :: process where
  "empty_notebook = initialize 0 (Some 1) owned_gist [] serialize_values (\<lambda>_. []) boot"

text \<open>The notebook \<^verbatim>\<open>[Code:"1+1", Text:"note", Code:"2+2"]\<close>.\<close>

definition three_cells :: process where
  "three_cells =
     snd (appendCodeView 0 None ''2+2''
       (snd (appendTextView 0 None ''note''
         (snd (appendCodeView 0 None ''1+1'' empty_notebook)))))"

text \<open>A second instance on the same page, with one code cell.\<close>

definition two_notebooks :: process where
  "two_notebooks =
     snd (appendCodeView 1 None ''x''
       (initialize 1 (Some 1) owned_gist [] serialize_values (\<lambda>_. []) three_cells))"

text \<open>
  The notebook of three cells, on which \<^verbatim>\<open>save\<close> is called and, before the 500 ms are
  over, \<^verbatim>\<open>render\<close>: the gist is not new, so \<^verbatim>\<open>render\<close> returns with the fetch under way.
\<close>

definition render_after_save :: process where
  "render_after_save =
     (case render 0 (save 0 three_cells) of Inr w \<Rightarrow> w | Inl (e, w) \<Rightarrow> w)"

text \<open>The notebook \<^verbatim>\<open>[Code:"1+1", Text:"note"]\<close>, and the one with an empty text cell.\<close>

definition text_last :: process where
  "text_last =
     snd (appendTextView 0 None ''note''
       (snd (appendCodeView 0 None ''1+1'' empty_notebook)))"

definition empty_text_last :: process where
  "empty_text_last =
     snd (appendTextView 0 None []
       (snd (appendCodeView 0 None ''1+1'' empty_notebook)))"

text \<open>A notebook with one text cell.\<close>

definition one_cell :: process where
  "one_cell = snd (appendTextView 0 None ''only'' empty_notebook)"

text \<open>The notebook \<^verbatim>\<open>[Code:"a", Text:"b", Code:"c", Code:"d"]\<close>.\<close>

definition four_cells :: process where
  "four_cells =
     snd (appendCodeView 0 None ''d''
       (snd (appendCodeView 0 None ''c''
         (snd (appendTextView 0 None ''b''
           (snd (appendCodeView 0 None ''a'' empty_notebook)))))))"

text \<open>The notebook of three cells while it renders, with nothing waiting in the timer.\<close>

definition rendering_three :: process where
  "rendering_three = (case render 0 three_cells of Inr w \<Rightarrow> w | Inl (e, w) \<Rightarrow> w)"

section \<open>Basic facts\<close>

lemma upd_simps:
  "instances (upd this f w) this = f (instances w this)"
  "this' \<noteq> this \<Longrightarrow> instances (upd this f w) this' = instances w this'"
  "idCounter (upd this f w) = idCounter w"
  "debounce (upd this f w) = debounce w"
  by (simp_all add: upd_def)

lemma indexOf_distinct_nth:
  "distinct xs \<Longrightarrow> i < length xs \<Longrightarrow> indexOf xs (xs ! i) = Some i"
proof (induction xs arbitrary: i)
  case Nil
  then show ?case by simp
next
  case (Cons y ys)
  then show ?case by (cases i) auto
qed

lemma indexOf_hd: "xs \<noteq> [] \<Longrightarrow> indexOf xs (hd xs) = Some 0"
  by (cases xs) simp_all

lemma indexOf_last:
  "distinct xs \<Longrightarrow> xs \<noteq> [] \<Longrightarrow> indexOf xs (last xs) = Some (length xs - 1)"
  using indexOf_distinct_nth [of xs "length xs - 1"] by (simp add: last_conv_nth)

lemmas model_defs = appendCodeView_def appendTextView_def appendView_def new_view_def
  assign_id_def collection_push_def collection_sort_def collection_remove_def
  moveCursorToEnd_def setValue_def focus_def log_call_def upd_def appendChild_def
  save_def saveGist_def initialize_def

lemma three_cells_eq:
  "three_cells = \<lparr>debounce = None, idCounter = 3,
     instances = (instances boot)(0 :=
       \<lparr>uniqueId = 2, rendering = False, execution = False, loading = False,
        userId = Some 1, gist = owned_gist,
        collection =
          [\<lparr>cid = 0, ctype = Code, cvalue = ''1+1'', uniqueCellId = Some 0\<rparr>,
           \<lparr>cid = 1, ctype = Text, cvalue = ''note'', uniqueCellId = None\<rparr>,
           \<lparr>cid = 2, ctype = Code, cvalue = ''2+2'', uniqueCellId = Some 1\<rparr>],
        childNodes = [0, 1, 2],
        serializeForGist = serialize_values, deserializeFromGist = (\<lambda>_. []),
        inflight = [],
        calls = [MoveCursorToEnd 0 None, MoveCursorToEnd 1 None, MoveCursorToEnd 2 None],
        appended =
          [\<lparr>cid = 0, ctype = Code, cvalue = [], uniqueCellId = Some 0\<rparr>,
           \<lparr>cid = 1, ctype = Text, cvalue = [], uniqueCellId = None\<rparr>,
           \<lparr>cid = 2, ctype = Code, cvalue = [], uniqueCellId = Some 1\<rparr>]\<rparr>)\<rparr>"
  by (simp add: three_cells_def empty_notebook_def boot_def model_defs Let_def
      eval_nat_numeral)

lemma two_notebooks_eq:
  "two_notebooks = \<lparr>debounce = None, idCounter = 4,
     instances = (instances three_cells)(1 :=
       \<lparr>uniqueId = 1, rendering = False, execution = False, loading = False,
        userId = Some 1, gist = owned_gist,
        collection = [\<lparr>cid = 3, ctype = Code, cvalue = ''x'', uniqueCellId = Some 0\<rparr>],
        childNodes = [3],
        serializeForGist = serialize_values, deserializeFromGist = (\<lambda>_. []),
        inflight = [],
        calls = [MoveCursorToEnd 3 None],
        appended = [\<lparr>cid = 3, ctype = Code, cvalue = [], uniqueCellId = Some 0\<rparr>]\<rparr>)\<rparr>"
  by (simp add: two_notebooks_def three_cells_eq model_defs Let_def eval_nat_numeral)

section \<open>Moving a cell at the boundary\<close>

text \<open>
  C8.  In a well-formed notebook, \<^verbatim>\<open>moveUp\<close> raised by the first cell and \<^verbatim>\<open>moveDown\<close>
  raised by the last cell change nothing at all: the page after the handler is the page
  before it, so the order of the collection, the order of the DOM children and the
  content of every cell are the same.
\<close>

theorem move_at_boundary_noop:
  assumes "well_formed this w" and "collection (instances w this) \<noteq> []"
  shows "on_moveUp this (cid (hd (collection (instances w this)))) w = w \<and>
         on_moveDown this (cid (last (collection (instances w this)))) w = w"
proof -
  let ?coll = "collection (instances w this)"
  from assms have els: "childNodes (instances w this) = map cid ?coll"
    and d: "distinct (map cid ?coll)" and ne: "map cid ?coll \<noteq> []"
    by (simp_all add: well_formed_def)
  have "indexOf (map cid ?coll) (cid (hd ?coll)) = Some 0"
    using indexOf_hd [OF ne] assms(2) by (simp add: hd_map)
  then have up: "on_moveUp this (cid (hd ?coll)) w = w"
    by (simp add: on_moveUp_def previousSibling_def els)
  have "indexOf (map cid ?coll) (cid (last ?coll)) = Some (length ?coll - 1)"
    using indexOf_last [OF d ne] assms(2) by (simp add: last_map)
  then have down: "on_moveDown this (cid (last ?coll)) w = w"
    using assms(2) by (simp add: on_moveDown_def nextSibling_def els)
  from up down show ?thesis ..
qed

theorem move_at_boundary_noop_witness:
  "well_formed 0 three_cells \<and> collection (instances three_cells 0) \<noteq> [] \<and>
   cid (hd (collection (instances three_cells 0))) = 0 \<and>
   cid (last (collection (instances three_cells 0))) = 2 \<and>
   on_moveUp 0 0 three_cells = three_cells \<and> on_moveDown 0 2 three_cells = three_cells"
proof -
  have wf3: "well_formed 0 three_cells"
    by (simp add: three_cells_eq well_formed_def)
  have ne: "collection (instances three_cells 0) \<noteq> []"
    by (simp add: three_cells_eq)
  have first: "cid (hd (collection (instances three_cells 0))) = 0"
    and final: "cid (last (collection (instances three_cells 0))) = 2"
    by (simp_all add: three_cells_eq)
  from move_at_boundary_noop [OF wf3 ne] wf3 ne first final show ?thesis by simp
qed

section \<open>\<^verbatim>\<open>execute\<close> on an empty collection\<close>

text \<open>
  C9.  When the collection is empty, \<^verbatim>\<open>execute(cb)\<close> throws a \<^verbatim>\<open>TypeError\<close>:
  \<^verbatim>\<open>this.collection.at(0)\<close> is \<^verbatim>\<open>undefined\<close> and its \<^verbatim>\<open>view\<close> is read before the
  guard \<^verbatim>\<open>if (!view)\<close> can run.  The page at the throw differs from the page before the
  call only in the flag \<^verbatim>\<open>execution\<close>, which is left set: the callback has not been
  called and no continuation that could call it later is in flight.
\<close>

theorem execute_empty_registry_faults:
  assumes "collection (instances w this) = []"
  shows "\<exists>w'. execute this cb w = Some (Inl (TypeError, w')) \<and>
           w' = upd this (\<lambda>nb. nb\<lparr>execution := True\<rparr>) w \<and>
           execution (instances w' this) \<and>
           calls (instances w' this) = calls (instances w this) \<and>
           inflight (instances w' this) = inflight (instances w this)"
  using assms by (simp add: execute_def at_def upd_simps Let_def)

theorem execute_empty_registry_faults_witness:
  "collection (instances empty_notebook 0) = [] \<and>
   execute 0 (Some 7) empty_notebook =
     Some (Inl (TypeError, upd 0 (\<lambda>nb. nb\<lparr>execution := True\<rparr>) empty_notebook)) \<and>
   calls (instances (upd 0 (\<lambda>nb. nb\<lparr>execution := True\<rparr>) empty_notebook) 0) = [] \<and>
   inflight (instances (upd 0 (\<lambda>nb. nb\<lparr>execution := True\<rparr>) empty_notebook) 0) = []"
proof -
  have e: "collection (instances empty_notebook 0) = []"
    by (simp add: empty_notebook_def initialize_def)
  have c: "calls (instances empty_notebook 0) = []"
    and i: "inflight (instances empty_notebook 0) = []"
    by (simp_all add: empty_notebook_def initialize_def)
  from execute_empty_registry_faults [OF e, of "Some 7"] e c i show ?thesis by auto
qed

section \<open>One debounced \<^verbatim>\<open>saveGist\<close> for all instances\<close>

text \<open>
  C10.  \<^verbatim>\<open>saveGist\<close> is one closure of the module.  Let two different instances \<open>A\<close> and
  \<open>B\<close>, neither of them rendering, call \<^verbatim>\<open>save\<close>, \<open>B\<close> less than 500 ms after \<open>A\<close>.
  Then the one timer is restarted for \<open>B\<close>; when it expires the wrapped function runs
  once, with \<open>B\<close> as \<^verbatim>\<open>this\<close> (so with the user, gist and collection of \<open>B\<close>); and
  whatever time passes, nothing happens to \<open>A\<close>: its save never runs.
\<close>

theorem shared_debounce_coalesces:
  assumes "A \<noteq> B" and "\<not> rendering (instances w A)" and "\<not> rendering (instances w B)"
    and "ms < 500"
  shows "debounce (save A w) = Some (A, 500) \<and>
         debounce (save B (elapse ms (save A w))) = Some (B, 500) \<and>
         elapse 500 (save B (elapse ms (save A w))) = saveGist_fn B (w\<lparr>debounce := None\<rparr>) \<and>
         (\<forall>t. instances (elapse t (save B (elapse ms (save A w)))) A = instances w A)"
  using assms
  by (auto simp add: save_def saveGist_def elapse_def saveGist_fn_def upd_def Let_def)

theorem shared_debounce_coalesces_witness:
  "(0::nat) \<noteq> 1 \<and> \<not> rendering (instances two_notebooks 0) \<and>
   \<not> rendering (instances two_notebooks 1) \<and> (100::nat) < 500 \<and>
   debounce (save 1 (elapse 100 (save 0 two_notebooks))) = Some (1, 500) \<and>
   gist_saves (gist (instances (elapse 500 (save 1 (elapse 100 (save 0 two_notebooks)))) 1))
     = [''x''] \<and>
   gist_saves (gist (instances (elapse 500 (save 1 (elapse 100 (save 0 two_notebooks)))) 0))
     = []"
proof -
  have r0: "\<not> rendering (instances two_notebooks 0)"
    and r1: "\<not> rendering (instances two_notebooks 1)"
    by (simp_all add: two_notebooks_eq three_cells_eq)
  have ne: "(0::nat) \<noteq> 1" and lt: "(100::nat) < 500" by simp_all
  have run: "gist_saves (gist (instances (saveGist_fn 1 (two_notebooks\<lparr>debounce := None\<rparr>)) 1))
      = [''x'']"
    by (simp add: two_notebooks_eq saveGist_fn_def upd_def Let_def isOwner_def truthy_id_def
        owned_gist_def serialize_values_def trim_right_def is_space_def)
  have a: "gist_saves (gist (instances two_notebooks 0)) = []"
    by (simp add: two_notebooks_eq three_cells_eq owned_gist_def)
  note th = shared_debounce_coalesces [OF ne r0 r1 lt]
  from th have d: "debounce (save 1 (elapse 100 (save 0 two_notebooks))) = Some (1, 500)"
    by blast
  from th have e: "elapse 500 (save 1 (elapse 100 (save 0 two_notebooks)))
      = saveGist_fn 1 (two_notebooks\<lparr>debounce := None\<rparr>)"
    by blast
  from th have n: "instances (elapse 500 (save 1 (elapse 100 (save 0 two_notebooks)))) 0
      = instances two_notebooks 0"
    by blast
  from r0 r1 d run a show ?thesis
    unfolding n unfolding e by simp
qed
section \<open>Saving while the notebook renders\<close>

lemma window_step_inv:
  assumes "rendering (instances w this)" and "none_pending this w"
  shows "rendering (instances (window_step this w ev) this) \<and>
         none_pending this (window_step this w ev) \<and>
         gist (instances (window_step this w ev) this) = gist (instances w this)"
proof (cases ev)
  case (Removes m)
  with assms show ?thesis
    by (simp add: collection_remove_def save_def upd_def none_pending_def)
next
  case Sorts
  with assms show ?thesis
    by (simp add: collection_sort_def save_def upd_def none_pending_def)
next
  case Changes
  with assms show ?thesis
    by (simp add: collection_change_def save_def)
next
  case (Passes ms)
  with assms show ?thesis
    by (auto simp add: elapse_def none_pending_def saveGist_fn_def upd_def Let_def
        split: option.splits)
qed

lemma window_run_inv:
  "rendering (instances w this) \<Longrightarrow> none_pending this w \<Longrightarrow>
   rendering (instances (window_run this evs w) this) \<and>
   none_pending this (window_run this evs w) \<and>
   gist (instances (window_run this evs w) this) = gist (instances w this)"
proof (induction evs arbitrary: w)
  case Nil
  then show ?case by (simp add: window_run_def)
next
  case (Cons ev evs)
  from window_step_inv [OF Cons.prems]
  have r: "rendering (instances (window_step this w ev) this)"
    and p: "none_pending this (window_step this w ev)"
    and g: "gist (instances (window_step this w ev) this) = gist (instances w this)"
    by simp_all
  from Cons.IH [OF r p] g show ?case by (simp add: window_run_def)
qed

text \<open>
  C5, as the claim states it, fails: \<^verbatim>\<open>save\<close> tests the flag when it is called, the
  wrapped function does not test it when the timer expires.  On the notebook of three
  cells, \<^verbatim>\<open>save\<close> is called while the flag is false; \<^verbatim>\<open>render\<close> then sets the flag and
  starts the fetch; 500 ms later the flag is still set, and the gist is handed the
  serialized notebook.
\<close>

theorem save_during_rendering_counterexample:
  "render 0 (save 0 three_cells) = Inr render_after_save \<and>
   rendering (instances render_after_save 0) \<and>
   gist_saves (gist (instances render_after_save 0)) = [] \<and>
   rendering (instances (elapse 500 render_after_save) 0) \<and>
   gist_saves (gist (instances (elapse 500 render_after_save) 0)) = [''1+1note2+2'']"
  by (simp add: render_after_save_def render_def three_cells_eq save_def saveGist_def
      View_render_def upd_def owned_gist_def Let_def elapse_def saveGist_fn_def
      isOwner_def truthy_id_def serialize_values_def trim_right_def is_space_def)

text \<open>
  C5, amended.  While \<^verbatim>\<open>rendering\<close> is true, a call of \<^verbatim>\<open>save\<close> is skipped entirely:
  the page is unchanged, so nothing is handed to the gist and the timer is neither started
  nor restarted.  Hence, when no call of \<^verbatim>\<open>saveGist\<close> by this instance is waiting in the
  timer, then whatever \<^verbatim>\<open>remove\<close>, \<^verbatim>\<open>sort\<close> and \<^verbatim>\<open>change\<close> events the collection raises
  and however much time passes, the gist of the instance stays as it is and still no call
  by the instance is waiting.  A call by this instance that is waiting in the timer is
  not held back by the flag: when the timer expires, the wrapped function runs as it does
  at any other time, with the flag still set.  It hands the serialized collection to the
  gist when the user has an id, owns the gist and the serialized text is not blank, and
  leaves the gist as it is otherwise.
\<close>

theorem rendering_skips_save_triggers:
  assumes "rendering (instances w this)"
  shows "save this w = w \<and>
         (none_pending this w \<longrightarrow>
            (\<forall>evs. gist (instances (window_run this evs w) this) = gist (instances w this) \<and>
                   none_pending this (window_run this evs w))) \<and>
         (\<forall>left ms. debounce w = Some (this, left) \<and> left \<le> ms \<longrightarrow>
            elapse ms w = saveGist_fn this (w\<lparr>debounce := None\<rparr>) \<and>
            rendering (instances (elapse ms w) this) \<and>
            (if truthy_id (userId (instances w this)) \<and> gist_isOwner (gist (instances w this)) \<and>
                trim_right (serializeForGist (instances w this)
                              (collection (instances w this))) \<noteq> []
             then gist_saves (gist (instances (elapse ms w) this)) =
                    gist_saves (gist (instances w this)) @
                      [serializeForGist (instances w this) (collection (instances w this))]
             else gist (instances (elapse ms w) this) = gist (instances w this)))"
proof -
  have s: "save this w = w" using assms by (simp add: save_def)
  have p: "none_pending this w \<longrightarrow>
            (\<forall>evs. gist (instances (window_run this evs w) this) = gist (instances w this) \<and>
                   none_pending this (window_run this evs w))"
    using assms window_run_inv [of w this] by simp
  have t: "\<forall>left ms. debounce w = Some (this, left) \<and> left \<le> ms \<longrightarrow>
            elapse ms w = saveGist_fn this (w\<lparr>debounce := None\<rparr>) \<and>
            rendering (instances (elapse ms w) this) \<and>
            (if truthy_id (userId (instances w this)) \<and> gist_isOwner (gist (instances w this)) \<and>
                trim_right (serializeForGist (instances w this)
                              (collection (instances w this))) \<noteq> []
             then gist_saves (gist (instances (elapse ms w) this)) =
                    gist_saves (gist (instances w this)) @
                      [serializeForGist (instances w this) (collection (instances w this))]
             else gist (instances (elapse ms w) this) = gist (instances w this))"
    using assms
    by (auto simp add: elapse_def saveGist_fn_def isOwner_def upd_def Let_def)
  from s p t show ?thesis by blast
qed

theorem rendering_skips_save_triggers_witness:
  "rendering (instances rendering_three 0) \<and> none_pending 0 rendering_three \<and>
   save 0 rendering_three = rendering_three \<and>
   gist_saves (gist (instances
     (window_run 0 [Changes, Removes 1, Passes 600, Sorts, Passes 600] rendering_three) 0)) = [] \<and>
   rendering (instances render_after_save 0) \<and>
   debounce render_after_save = Some (0, 500) \<and>
   gist_saves (gist (instances (elapse 700 render_after_save) 0)) = [''1+1note2+2''] \<and>
   rendering (instances (elapse 700 render_after_save) 0)"
proof -
  have r: "rendering (instances rendering_three 0)"
    and p: "none_pending 0 rendering_three"
    and g: "gist_saves (gist (instances rendering_three 0)) = []"
    by (simp_all add: rendering_three_def render_def three_cells_eq View_render_def upd_def
        owned_gist_def Let_def none_pending_def)
  note th = rendering_skips_save_triggers [OF r]
  from th have s: "save 0 rendering_three = rendering_three" by blast
  from th p have "gist (instances
      (window_run 0 [Changes, Removes 1, Passes 600, Sorts, Passes 600] rendering_three) 0)
      = gist (instances rendering_three 0)"
    by blast
  with g have q: "gist_saves (gist (instances
     (window_run 0 [Changes, Removes 1, Passes 600, Sorts, Passes 600] rendering_three) 0)) = []"
    by simp
  have r': "rendering (instances render_after_save 0)"
    and d': "debounce render_after_save = Some (0, 500)"
    and u': "truthy_id (userId (instances render_after_save 0))"
    and o': "gist_isOwner (gist (instances render_after_save 0))"
    and g': "gist_saves (gist (instances render_after_save 0)) = []"
    and t': "serializeForGist (instances render_after_save 0)
               (collection (instances render_after_save 0)) = ''1+1note2+2''"
    by (simp_all add: render_after_save_def render_def three_cells_eq save_def saveGist_def
        View_render_def upd_def owned_gist_def Let_def truthy_id_def serialize_values_def)
  have b': "trim_right ''1+1note2+2'' \<noteq> []"
    by (simp add: trim_right_def is_space_def)
  note th' = rendering_skips_save_triggers [OF r']
  from th' have every: "\<forall>left ms. debounce render_after_save = Some (0, left) \<and> left \<le> ms \<longrightarrow>
      elapse ms render_after_save = saveGist_fn 0 (render_after_save\<lparr>debounce := None\<rparr>) \<and>
      rendering (instances (elapse ms render_after_save) 0) \<and>
      (if truthy_id (userId (instances render_after_save 0)) \<and>
          gist_isOwner (gist (instances render_after_save 0)) \<and>
          trim_right (serializeForGist (instances render_after_save 0)
                        (collection (instances render_after_save 0))) \<noteq> []
       then gist_saves (gist (instances (elapse ms render_after_save) 0)) =
              gist_saves (gist (instances render_after_save 0)) @
                [serializeForGist (instances render_after_save 0)
                   (collection (instances render_after_save 0))]
       else gist (instances (elapse ms render_after_save) 0) =
              gist (instances render_after_save 0))"
    by (rule conjunct2 [OF conjunct2])
  have le: "(500::nat) \<le> 700" by simp
  note x = every [rule_format, OF conjI [OF d' le]]
  from x have x1: "rendering (instances (elapse 700 render_after_save) 0)" by (rule conjunct1 [OF conjunct2])
  from x have x2: "if truthy_id (userId (instances render_after_save 0)) \<and>
          gist_isOwner (gist (instances render_after_save 0)) \<and>
          trim_right (serializeForGist (instances render_after_save 0)
                        (collection (instances render_after_save 0))) \<noteq> []
       then gist_saves (gist (instances (elapse 700 render_after_save) 0)) =
              gist_saves (gist (instances render_after_save 0)) @
                [serializeForGist (instances render_after_save 0)
                   (collection (instances render_after_save 0))]
       else gist (instances (elapse 700 render_after_save) 0) =
              gist (instances render_after_save 0)"
    by (rule conjunct2 [OF conjunct2])
  from x2 u' o' b' g' t' have y: "gist_saves (gist (instances (elapse 700 render_after_save) 0))
      = [''1+1note2+2'']"
    by simp
  from r p s q r' d' x1 y show ?thesis by blast
qed

section \<open>Appending after the last cell\<close>

lemma insert_after_last: "r \<notin> set xs \<Longrightarrow> insert_after el r (xs @ [r]) = xs @ [r, el]"
  by (induction xs) auto

lemma dom_positions:
  assumes "distinct (map cid coll)"
  shows "map (dom_position (map cid coll)) coll = map Suc [0..<length coll]"
proof (rule nth_equalityI)
  show "length (map (dom_position (map cid coll)) coll) = length (map Suc [0..<length coll])"
    by simp
next
  fix i assume "i < length (map (dom_position (map cid coll)) coll)"
  then have i: "i < length (map cid coll)" by simp
  from indexOf_distinct_nth [OF assms i] i
  show "map (dom_position (map cid coll)) coll ! i = map Suc [0..<length coll] ! i"
    by (simp add: dom_position_def)
qed

lemma sort_by_dom_same:
  assumes "distinct (map cid coll)"
  shows "sort_by_dom (map cid coll) coll = coll"
proof -
  have "sorted (map (dom_position (map cid coll)) coll)"
    unfolding dom_positions [OF assms] by (simp add: sorted_map strict_sorted_iff [symmetric] sorted_wrt_map)
  then show ?thesis
    unfolding sort_by_dom_def by (rule sort_key_id_if_sorted)
qed


lemma wf_parts:
  assumes "well_formed this w" and "collection (instances w this) = cs @ [t]"
  shows "childNodes (instances w this) = map cid cs @ [cid t]"
    and "distinct (map cid cs)" and "cid t \<notin> cid ` set cs"
    and "idCounter w \<notin> cid ` set cs" and "cid t \<noteq> idCounter w"
    and "\<forall>m \<in> set cs. cid m \<noteq> idCounter w"
  using assms by (auto simp add: well_formed_def list_all_iff)

lemma appendCodeView_after_last:
  assumes "well_formed this w" and "collection (instances w this) = cs @ [t]"
  shows "appendCodeView this (Some (cid t)) v w =
     (idCounter w,
      w\<lparr>debounce := (if rendering (instances w this) then debounce w else Some (this, 500)),
        idCounter := Suc (idCounter w),
        instances := (instances w)(this := (instances w this)
          \<lparr>uniqueId := Suc (uniqueId (instances w this)),
           collection := cs @ [t, \<lparr>cid = idCounter w, ctype = Code, cvalue = v,
                                  uniqueCellId = Some (uniqueId (instances w this))\<rparr>],
           childNodes := map cid cs @ [cid t, idCounter w],
           calls := calls (instances w this) @ [MoveCursorToEnd (idCounter w) None],
           appended := appended (instances w this) @
             [\<lparr>cid = idCounter w, ctype = Code, cvalue = [],
               uniqueCellId = Some (uniqueId (instances w this))\<rparr>]\<rparr>)\<rparr>)"
proof -
  note p = wf_parts [OF assms]
  have d: "distinct (map cid (cs @ [t, \<lparr>cid = idCounter w, ctype = Code, cvalue = [],
                                  uniqueCellId = Some (uniqueId (instances w this))\<rparr>]))"
    using p by auto
  have ia: "insertAfter (idCounter w) (cid t) (map cid cs @ [cid t]) = map cid cs @ [cid t, idCounter w]"
    using p by (simp add: insertAfter_def remove1_idem insert_after_last)
  have srt: "sort_by_dom (map cid cs @ [cid t, idCounter w])
       (cs @ [t, \<lparr>cid = idCounter w, ctype = Code, cvalue = [],
                                  uniqueCellId = Some (uniqueId (instances w this))\<rparr>])
     = cs @ [t, \<lparr>cid = idCounter w, ctype = Code, cvalue = [],
                                  uniqueCellId = Some (uniqueId (instances w this))\<rparr>]"
    using sort_by_dom_same [OF d] by simp
  have mp: "map (\<lambda>m. if cid m = idCounter w then m\<lparr>cvalue := v\<rparr> else m) cs = cs"
    using p by (simp add: map_idI)
  show ?thesis
    using p assms(2)
    by (auto simp add: model_defs Let_def ia srt mp
        intro!: process.equality notebook.equality ext)
qed


lemma getNext_last_but_one:
  assumes "distinct (map cid (cs @ [t, n]))"
  shows "getNext (cs @ [t, n]) (cid t) = Some n"
proof -
  have "indexOf (map cid (cs @ [t, n])) (map cid (cs @ [t, n]) ! length cs) = Some (length cs)"
    by (rule indexOf_distinct_nth [OF assms]) simp
  then have "indexOf (map cid (cs @ [t, n])) (cid t) = Some (length cs)"
    by (simp add: nth_append)
  then show ?thesis by (simp add: getNext_def at_def nth_append)
qed

lemma find_last_but_one:
  "cid t \<notin> cid ` set cs \<Longrightarrow> find (\<lambda>m. cid m = cid t) (cs @ [t, n]) = Some t"
  by (induction cs) auto

lemma filter_others: "c \<notin> cid ` set cs \<Longrightarrow> filter (\<lambda>m. cid m \<noteq> c) cs = cs"
  by (induction cs) auto

lemma remove1_last_but_one: "c \<notin> set xs \<Longrightarrow> remove1 c (xs @ [c, n]) = xs @ [n]"
  by (induction xs) auto

lemma one_cell_facts:
  "collection (instances one_cell 0) =
     [\<lparr>cid = 0, ctype = Text, cvalue = ''only'', uniqueCellId = None\<rparr>]"
  "childNodes (instances one_cell 0) = [0]"
  "idCounter one_cell = 1"
  "uniqueId (instances one_cell 0) = 0"
  by (simp_all add: one_cell_def empty_notebook_def boot_def model_defs Let_def)

lemma text_last_facts:
  "collection (instances text_last 0) =
     [\<lparr>cid = 0, ctype = Code, cvalue = ''1+1'', uniqueCellId = Some 0\<rparr>,
      \<lparr>cid = 1, ctype = Text, cvalue = ''note'', uniqueCellId = None\<rparr>]"
  "childNodes (instances text_last 0) = [0, 1]"
  "idCounter text_last = 2"
  "uniqueId (instances text_last 0) = 1"
  by (simp_all add: text_last_def empty_notebook_def boot_def model_defs Let_def
      eval_nat_numeral)

lemma empty_text_last_facts:
  "collection (instances empty_text_last 0) =
     [\<lparr>cid = 0, ctype = Code, cvalue = ''1+1'', uniqueCellId = Some 0\<rparr>,
      \<lparr>cid = 1, ctype = Text, cvalue = [], uniqueCellId = None\<rparr>]"
  "childNodes (instances empty_text_last 0) = [0, 1]"
  "idCounter empty_text_last = 2"
  "uniqueId (instances empty_text_last 0) = 1"
  by (simp_all add: empty_text_last_def empty_notebook_def boot_def model_defs Let_def
      eval_nat_numeral)

section \<open>Removing the only cell\<close>

text \<open>
  C4.  In a well-formed notebook whose collection holds exactly one cell, the handler of
  that cell's \<^verbatim>\<open>remove\<close> event leaves exactly one cell in the collection: a code cell
  that \<^verbatim>\<open>appendCodeView\<close> has just made, empty, with a new \<^verbatim>\<open>cid\<close> and the next unique
  id.  The removed cell is no longer in the collection, and once the widget has taken its
  element out of the DOM the new cell is the only child.
\<close>

theorem remove_only_cell:
  assumes "well_formed this w" and "collection (instances w this) = [v]"
  shows "collection (instances (on_remove this (cid v) w) this) =
           [\<lparr>cid = idCounter w, ctype = Code, cvalue = [],
             uniqueCellId = Some (uniqueId (instances w this))\<rparr>] \<and>
         idCounter w \<noteq> cid v \<and>
         get (collection (instances (on_remove this (cid v) w) this)) (cid v) = None \<and>
         childNodes (instances (view_remove this (cid v) w) this) = [idCounter w]"
proof -
  from assms(2) have c: "collection (instances w this) = [] @ [v]" by simp
  note p = wf_parts [OF assms(1) c]
  have len: "length (childNodes (instances w this)) < 2" using p by simp
  have nxt: "getNext [v, \<lparr>cid = idCounter w, ctype = Code, cvalue = [],
             uniqueCellId = Some (uniqueId (instances w this))\<rparr>] (cid v)
     = Some \<lparr>cid = idCounter w, ctype = Code, cvalue = [],
             uniqueCellId = Some (uniqueId (instances w this))\<rparr>"
    using getNext_last_but_one [of "[]" v] p by simp
  have "collection (instances (on_remove this (cid v) w) this) =
           [\<lparr>cid = idCounter w, ctype = Code, cvalue = [],
             uniqueCellId = Some (uniqueId (instances w this))\<rparr>]"
    and "childNodes (instances (on_remove this (cid v) w) this) = [cid v, idCounter w]"
    using p
    by (simp_all add: on_remove_def len appendCodeView_after_last [OF assms(1) c] Let_def
        getNextView_def nxt moveCursorToEnd_def focus_def log_call_def
        collection_remove_def save_def saveGist_def upd_def)
  with p show ?thesis
    by (simp add: get_def view_remove_def upd_def)
qed

theorem remove_only_cell_witness:
  "well_formed 0 one_cell \<and>
   collection (instances one_cell 0) =
     [\<lparr>cid = 0, ctype = Text, cvalue = ''only'', uniqueCellId = None\<rparr>] \<and>
   collection (instances (on_remove 0 0 one_cell) 0) =
     [\<lparr>cid = 1, ctype = Code, cvalue = [], uniqueCellId = Some 0\<rparr>] \<and>
   get (collection (instances (on_remove 0 0 one_cell) 0)) 0 = None"
proof -
  have wf1: "well_formed 0 one_cell"
    by (simp add: well_formed_def one_cell_facts)
  from remove_only_cell [OF wf1 one_cell_facts(1)] wf1 show ?thesis
    by (simp add: one_cell_facts get_def)
qed

section \<open>The \<^verbatim>\<open>code\<close> event of the last text cell\<close>

text \<open>
  C7, as the claim states it, fails: the handler removes the text cell only
  \<^verbatim>\<open>if (!view.getValue())\<close>.  In \<^verbatim>\<open>[Code:"1+1", Text:"note"]\<close> the \<^verbatim>\<open>code\<close> event of the
  text cell with an empty payload appends the empty code cell, and the text cell stays in
  the collection.
\<close>

theorem code_event_keeps_text_counterexample:
  "collection (instances text_last 0) =
     [\<lparr>cid = 0, ctype = Code, cvalue = ''1+1'', uniqueCellId = Some 0\<rparr>,
      \<lparr>cid = 1, ctype = Text, cvalue = ''note'', uniqueCellId = None\<rparr>] \<and>
   lastChild (childNodes (instances text_last 0)) = Some 1 \<and>
   (case on_code 0 1 [] text_last of
      Inl e \<Rightarrow> []
    | Inr w' \<Rightarrow> collection (instances w' 0)) =
     [\<lparr>cid = 0, ctype = Code, cvalue = ''1+1'', uniqueCellId = Some 0\<rparr>,
      \<lparr>cid = 1, ctype = Text, cvalue = ''note'', uniqueCellId = None\<rparr>,
      \<lparr>cid = 2, ctype = Code, cvalue = [], uniqueCellId = Some 1\<rparr>]"
  by (simp add: text_last_def empty_notebook_def boot_def on_code_def lastChild_def Let_def
      getNextView_def getNext_def at_def getValue_def get_def model_defs insertAfter_def
      sort_by_dom_def dom_position_def eval_nat_numeral)

text \<open>
  C7, amended.  In a well-formed notebook whose last cell is a text cell, the \<^verbatim>\<open>code\<close>
  event of that cell with an empty payload appends a new empty code cell immediately
  after it and moves the cursor of the new cell to line 0 and the focus into it
  (\<^verbatim>\<open>moveCursorToEnd(0).focus()\<close>).  The text cell is removed from the collection and the
  DOM if and only if its own content is empty; then the \<^verbatim>\<open>remove\<close> handler focuses the new
  cell once more.  Otherwise the text cell stays where it is.
\<close>

theorem code_event_on_last_text_cell:
  assumes "well_formed this w" and "collection (instances w this) = cs @ [t]"
    and "ctype t = Text"
  shows "\<exists>w'. on_code this (cid t) [] w = Inr w' \<and>
           collection (instances w' this) =
             cs @ (if cvalue t = [] then [] else [t]) @
               [\<lparr>cid = idCounter w, ctype = Code, cvalue = [],
                 uniqueCellId = Some (uniqueId (instances w this))\<rparr>] \<and>
           childNodes (instances w' this) =
             map cid cs @ (if cvalue t = [] then [] else [cid t]) @ [idCounter w] \<and>
           calls (instances w' this) =
             calls (instances w this) @
               [MoveCursorToEnd (idCounter w) None,
                MoveCursorToEnd (idCounter w) (Some 0), Focus (idCounter w)] @
               (if cvalue t = [] then [Focus (idCounter w), MoveCursorToEnd (idCounter w) None]
                else [])"
proof -
  let ?n = "\<lparr>cid = idCounter w, ctype = Code, cvalue = [],
              uniqueCellId = Some (uniqueId (instances w this))\<rparr>"
  note p = wf_parts [OF assms(1,2)]
  have lc: "lastChild (childNodes (instances w this)) = Some (cid t)"
    using p by (simp add: lastChild_def)
  have d: "distinct (map cid (cs @ [t, ?n]))" using p by auto
  note nxt = getNext_last_but_one [OF d]
  have fnd: "find (\<lambda>m. cid m = cid t) (cs @ [t, ?n]) = Some t"
    using p by (simp add: find_last_but_one)
  have mem: "cid t \<in> cid ` set (cs @ [t, ?n])" by simp
  have flt: "filter (\<lambda>m. cid m \<noteq> cid t) cs = cs"
    using p by (simp add: filter_others)
  have rm: "remove1 (cid t) (map cid cs @ [cid t, idCounter w]) = map cid cs @ [idCounter w]"
    using p by (simp add: remove1_last_but_one)
  show ?thesis
  proof (cases "cvalue t = []")
    case True
    then show ?thesis
      using p(5)
      by (simp add: on_code_def lc appendCodeView_after_last [OF assms(1,2)] Let_def
          getNextView_def nxt getValue_def get_def fnd view_remove_def on_remove_def
          moveCursorToEnd_def focus_def log_call_def collection_remove_def flt rm
          save_def saveGist_def upd_def)
  next
    case False
    then show ?thesis
      by (simp add: on_code_def lc appendCodeView_after_last [OF assms(1,2)] Let_def
          getNextView_def nxt getValue_def get_def fnd
          moveCursorToEnd_def focus_def log_call_def upd_def)
  qed
qed

theorem code_event_on_last_text_cell_witness:
  "well_formed 0 empty_text_last \<and>
   collection (instances empty_text_last 0) =
     [\<lparr>cid = 0, ctype = Code, cvalue = ''1+1'', uniqueCellId = Some 0\<rparr>] @
     [\<lparr>cid = 1, ctype = Text, cvalue = [], uniqueCellId = None\<rparr>] \<and>
   (\<exists>w'. on_code 0 1 [] empty_text_last = Inr w' \<and>
      collection (instances w' 0) =
        [\<lparr>cid = 0, ctype = Code, cvalue = ''1+1'', uniqueCellId = Some 0\<rparr>,
         \<lparr>cid = 2, ctype = Code, cvalue = [], uniqueCellId = Some 1\<rparr>] \<and>
      childNodes (instances w' 0) = [0, 2])"
proof -
  have wf2: "well_formed 0 empty_text_last"
    by (simp add: well_formed_def empty_text_last_facts)
  have c: "collection (instances empty_text_last 0) =
     [\<lparr>cid = 0, ctype = Code, cvalue = ''1+1'', uniqueCellId = Some 0\<rparr>] @
     [\<lparr>cid = 1, ctype = Text, cvalue = [], uniqueCellId = None\<rparr>]"
    by (simp add: empty_text_last_facts)
  from code_event_on_last_text_cell [OF wf2 c] wf2 c show ?thesis
    by (auto simp add: empty_text_last_facts)
qed
section \<open>\<^verbatim>\<open>browseUp\<close>\<close>

lemma get_nth:
  "distinct (map cid coll) \<Longrightarrow> i < length coll \<Longrightarrow> get coll (cid (coll ! i)) = Some (coll ! i)"
proof (induction coll arbitrary: i)
  case Nil
  then show ?case by simp
next
  case (Cons c cs)
  show ?case
  proof (cases i)
    case 0
    then show ?thesis by (simp add: get_def)
  next
    case (Suc k)
    with Cons.prems have k: "k < length cs" and d: "distinct (map cid cs)"
      and "cid c \<notin> cid ` set cs" by simp_all
    then have "cid (cs ! k) \<noteq> cid c" by (metis image_eqI nth_mem)
    with Cons.IH [OF d k] Suc show ?thesis by (simp add: get_def)
  qed
qed

lemma getPrev_nth:
  assumes "distinct (map cid coll)" and "i < length coll"
  shows "getPrev coll (cid (coll ! i)) = (case i of 0 \<Rightarrow> None | Suc k \<Rightarrow> Some (coll ! k))"
proof -
  from assms have "indexOf (map cid coll) (map cid coll ! i) = Some i"
    by (intro indexOf_distinct_nth) simp_all
  with assms(2) show ?thesis
    by (simp add: getPrev_def at_def split: nat.splits)
qed

lemma browse_prev_scan:
  assumes "distinct (map cid coll)" and "i < length coll"
  shows "browse_prev coll (cid (coll ! i)) = first_code_before coll i"
  using assms(2)
proof (induction i)
  case 0
  then show ?case
    by (subst browse_prev.simps) (simp add: getPrev_nth [OF assms(1)] first_code_before_def)
next
  case (Suc k)
  then have k: "k < length coll" by simp
  have tk: "take (Suc k) coll = take k coll @ [coll ! k]"
    using k by (simp add: take_Suc_conv_app_nth)
  show ?case
  proof (cases "ctype (coll ! k) = Code")
    case True
    then show ?thesis
      by (subst browse_prev.simps)
         (simp add: getPrev_nth [OF assms(1) Suc.prems] first_code_before_def tk)
  next
    case False
    with Suc.IH [OF k] show ?thesis
      by (subst browse_prev.simps)
         (simp add: getPrev_nth [OF assms(1) Suc.prems] first_code_before_def tk)
  qed
qed

lemma four_cells_facts:
  "collection (instances four_cells 0) =
     [\<lparr>cid = 0, ctype = Code, cvalue = ''a'', uniqueCellId = Some 0\<rparr>,
      \<lparr>cid = 1, ctype = Text, cvalue = ''b'', uniqueCellId = None\<rparr>,
      \<lparr>cid = 2, ctype = Code, cvalue = ''c'', uniqueCellId = Some 1\<rparr>,
      \<lparr>cid = 3, ctype = Code, cvalue = ''d'', uniqueCellId = Some 2\<rparr>]"
  "childNodes (instances four_cells 0) = [0, 1, 2, 3]"
  "idCounter four_cells = 4"
  by (simp_all add: four_cells_def empty_notebook_def boot_def model_defs Let_def
      eval_nat_numeral)

text \<open>
  C6.  In a well-formed notebook, let \<^verbatim>\<open>browseUp\<close> carry the \<^verbatim>\<open>cid\<close> of the cell at
  position \<open>i\<close> of the collection.  The loop of the handler finds what the spec's scan
  finds: reading backward from position \<open>i\<close>, text cells skipped, the first code cell.
  If there is one, the view that raised the event is made to show that cell's content
  (\<^verbatim>\<open>browseToCell\<close>) and its cursor is moved to the end; if there is none, the page is
  unchanged.  The instance below is \<^verbatim>\<open>[Code:"a", Text:"b", Code:"c", Code:"d"]\<close> with the
  fourth cell as the reference: the scan finds \<^verbatim>\<open>"c"\<close>.
\<close>

theorem browseUp_scans_backward:
  assumes "well_formed this w" and "i < length (collection (instances w this))"
  shows "on_browseUp this view (cid (collection (instances w this) ! i)) w =
           (case first_code_before (collection (instances w this)) i of
              None \<Rightarrow> w
            | Some m \<Rightarrow> shows_cell this view m w)"
proof -
  from assms(1) have d: "distinct (map cid (collection (instances w this)))"
    by (simp add: well_formed_def)
  show ?thesis
    by (simp add: on_browseUp_def get_nth [OF d assms(2)] browse_prev_scan [OF d assms(2)]
        shows_cell_def browseToCell_def moveCursorToEnd_def setValue_def log_call_def upd_def
        split: option.splits)
qed

theorem browseUp_scans_backward_witness:
  "well_formed 0 four_cells \<and> 3 < length (collection (instances four_cells 0)) \<and>
   cid (collection (instances four_cells 0) ! 3) = 3 \<and>
   first_code_before (collection (instances four_cells 0)) 3 =
     Some \<lparr>cid = 2, ctype = Code, cvalue = ''c'', uniqueCellId = Some 1\<rparr> \<and>
   on_browseUp 0 3 3 four_cells =
     shows_cell 0 3 \<lparr>cid = 2, ctype = Code, cvalue = ''c'', uniqueCellId = Some 1\<rparr> four_cells \<and>
   getValue 0 3 (on_browseUp 0 3 3 four_cells) = ''c''"
proof -
  have wf4: "well_formed 0 four_cells"
    by (simp add: well_formed_def four_cells_facts)
  have len: "3 < length (collection (instances four_cells 0))"
    by (simp add: four_cells_facts)
  have ref: "cid (collection (instances four_cells 0) ! 3) = 3"
    by (simp add: four_cells_facts)
  have scan: "first_code_before (collection (instances four_cells 0)) 3 =
     Some \<lparr>cid = 2, ctype = Code, cvalue = ''c'', uniqueCellId = Some 1\<rparr>"
    by (simp add: four_cells_facts first_code_before_def eval_nat_numeral)
  have val: "getValue 0 3 (shows_cell 0 3
      \<lparr>cid = 2, ctype = Code, cvalue = ''c'', uniqueCellId = Some 1\<rparr> four_cells) = ''c''"
    by (simp add: shows_cell_def getValue_def get_def upd_def four_cells_facts)
  from browseUp_scans_backward [OF wf4 len, of 3] wf4 len ref scan val show ?thesis
    by simp
qed
section \<open>Runs of \<^verbatim>\<open>execute\<close>\<close>

lemma execution_from_None:
  "execution_from this cb None w = Some (finish_execution this cb w)"
  by (subst execution_from.simps) simp

lemma execution_from_Some:
  "execution_from this cb (Some v) w =
     (if is_code this v (focus_end this v w)
      then Some (view_execute this v cb (focus_end this v w))
      else execution_from this cb (getNextView this v (focus_end this v w)) (focus_end this v w))"
  by (subst execution_from.simps) simp

lemma getNext_nth:
  assumes "distinct (map cid coll)" and "i < length coll"
  shows "getNext coll (cid (coll ! i)) = at coll (Suc i)"
proof -
  from assms have "indexOf (map cid coll) (map cid coll ! i) = Some i"
    by (intro indexOf_distinct_nth) simp_all
  with assms(2) show ?thesis by (simp add: getNext_def)
qed

text \<open>Projections of the small steps.\<close>

lemma focus_end_proj:
  "collection (instances (focus_end this v w) this) = collection (instances w this)"
  "inflight (instances (focus_end this v w) this) = inflight (instances w this)"
  "execution (instances (focus_end this v w) this) = execution (instances w this)"
  "calls (instances (focus_end this v w) this) =
     calls (instances w this) @ [Focus v, MoveCursorToEnd v None]"
  by (simp_all add: focus_end_def moveCursorToEnd_def focus_def log_call_def upd_def)

lemma view_execute_proj:
  "collection (instances (view_execute this v cb w) this) = collection (instances w this)"
  "inflight (instances (view_execute this v cb w) this) = inflight (instances w this) @ [(v, cb)]"
  "execution (instances (view_execute this v cb w) this) = execution (instances w this)"
  "calls (instances (view_execute this v cb w) this) =
     calls (instances w this) @ [SandboxExecute v (getValue this v w)]"
  by (simp_all add: view_execute_def log_call_def upd_def)

lemma finish_execution_proj:
  "collection (instances (finish_execution this cb w) this) = collection (instances w this)"
  "inflight (instances (finish_execution this cb w) this) = inflight (instances w this)"
  "execution (instances (finish_execution this cb w) this) = False"
  "calls (instances (finish_execution this cb w) this) =
     calls (instances w this) @ callback_calls cb"
  by (simp_all add: finish_execution_def callback_calls_def log_call_def upd_def Let_def
      split: option.splits)

lemma visited_all:
  "length (filter (\<lambda>m. ctype m = Code) cs) = k \<Longrightarrow> visited k cs = cs \<and> waiting k cs = None"
proof (induction cs arbitrary: k)
  case Nil
  then show ?case by simp
next
  case (Cons m ms)
  then show ?case by (cases k) auto
qed

lemma run_upto:
  assumes d: "distinct (map cid coll)"
  shows "collection (instances w this) = coll \<Longrightarrow> inflight (instances w this) = [] \<Longrightarrow>
         i \<le> length coll \<Longrightarrow>
         length outs \<le> length (filter (\<lambda>m. ctype m = Code) (drop i coll)) \<Longrightarrow>
         \<exists>w1 w2. execution_from this cb (map_option cid (at coll i)) w = Some w1 \<and>
           resolve_all this outs w1 = Some w2 \<and>
           collection (instances w2 this) = coll \<and>
           calls (instances w2 this) =
             calls (instances w this) @ visit_calls (visited (length outs) (drop i coll)) @
               (case waiting (length outs) (drop i coll) of
                  None \<Rightarrow> callback_calls cb | Some m \<Rightarrow> []) \<and>
           inflight (instances w2 this) =
             (case waiting (length outs) (drop i coll) of
                None \<Rightarrow> [] | Some m \<Rightarrow> [(cid m, cb)]) \<and>
           execution (instances w2 this) =
             (case waiting (length outs) (drop i coll) of
                None \<Rightarrow> False | Some m \<Rightarrow> execution (instances w this))"
proof (induction "length coll - i" arbitrary: i w outs)
  case 0
  then have i: "i = length coll" by simp
  with 0 have outs: "outs = []" by simp
  show ?case
    using 0(2,3)
    by (simp add: i outs at_def execution_from_None finish_execution_proj)
next
  case (Suc n)
  then have i: "i < length coll" by simp
  let ?v = "cid (coll ! i)"
  let ?w = "focus_end this ?v w"
  have dr: "drop i coll = coll ! i # drop (Suc i) coll"
    using i by (simp add: Cons_nth_drop_Suc)
  have cw: "collection (instances ?w this) = coll" and iw: "inflight (instances ?w this) = []"
    using Suc.prems by (simp_all add: focus_end_proj)
  have code: "is_code this ?v ?w \<longleftrightarrow> ctype (coll ! i) = Code"
    by (simp add: is_code_def cw get_nth [OF d i])
  have nxt: "\<And>w'. collection (instances w' this) = coll \<Longrightarrow>
      getNextView this ?v w' = map_option cid (at coll (Suc i))"
    by (simp add: getNextView_def getNext_nth [OF d i])
  have n: "n = length coll - Suc i" using Suc(2) by simp
  have le: "Suc i \<le> length coll" using i by simp
  show ?case
  proof (cases "ctype (coll ! i) = Code")
    case True
    let ?w1 = "view_execute this ?v cb ?w"
    have start: "execution_from this cb (map_option cid (at coll i)) w = Some ?w1"
      using i True by (simp add: at_def execution_from_Some code)
    have calls0: "calls (instances ?w1 this) =
        calls (instances w this) @ [Focus ?v, MoveCursorToEnd ?v None,
          SandboxExecute ?v (cvalue (coll ! i))]"
      by (simp add: view_execute_proj focus_end_proj getValue_def cw Suc.prems(1)
          get_nth [OF d i])
    show ?thesis
    proof (cases outs)
      case Nil
      from start calls0 True show ?thesis
        using Suc.prems(1,2)
        by (simp add: Nil dr view_execute_proj focus_end_proj cw iw)
    next
      case (Cons out outs')
      with Suc.prems(4) dr True
      have len: "length outs' \<le> length (filter (\<lambda>m. ctype m = Code) (drop (Suc i) coll))"
        by simp
      let ?w1' = "upd this (\<lambda>nb. nb\<lparr>inflight := drop (Suc 0) (inflight nb)\<rparr>) ?w1"
      have c1: "collection (instances ?w1' this) = coll"
        and i1: "inflight (instances ?w1' this) = []"
        and x1: "execution (instances ?w1' this) = execution (instances w this)"
        using Suc.prems(1,2) by (simp_all add: upd_def view_execute_proj focus_end_proj)
      have calls1: "calls (instances ?w1' this) = calls (instances ?w1 this)"
        by (simp add: upd_def)
      from Suc(1) [OF n c1 i1 le len] obtain w1 w2
        where e: "execution_from this cb (map_option cid (at coll (Suc i))) ?w1' = Some w1"
          and r: "resolve_all this outs' w1 = Some w2"
          and res: "collection (instances w2 this) = coll"
            "calls (instances w2 this) =
               calls (instances ?w1' this) @
                 visit_calls (visited (length outs') (drop (Suc i) coll)) @
                 (case waiting (length outs') (drop (Suc i) coll) of
                    None \<Rightarrow> callback_calls cb | Some m \<Rightarrow> [])"
            "inflight (instances w2 this) =
               (case waiting (length outs') (drop (Suc i) coll) of
                  None \<Rightarrow> [] | Some m \<Rightarrow> [(cid m, cb)])"
            "execution (instances w2 this) =
               (case waiting (length outs') (drop (Suc i) coll) of
                  None \<Rightarrow> False | Some m \<Rightarrow> execution (instances ?w1' this))"
        by blast
      have step: "resolve this 0 out ?w1 = Some w1"
        using e by (simp add: resolve_def view_execute_proj iw Let_def nxt [OF c1])
      note res' = res [unfolded x1 calls1 calls0]
      from start step r res' True show ?thesis
        by (simp add: Cons dr)
    qed
  next
    case False
    with Suc.prems(4) dr
    have len: "length outs \<le> length (filter (\<lambda>m. ctype m = Code) (drop (Suc i) coll))"
      by simp
    from Suc(1) [OF n cw iw le len] obtain w1 w2
      where e: "execution_from this cb (map_option cid (at coll (Suc i))) ?w = Some w1"
        and r: "resolve_all this outs w1 = Some w2"
        and res: "collection (instances w2 this) = coll"
          "calls (instances w2 this) =
             calls (instances ?w this) @
               visit_calls (visited (length outs) (drop (Suc i) coll)) @
               (case waiting (length outs) (drop (Suc i) coll) of
                  None \<Rightarrow> callback_calls cb | Some m \<Rightarrow> [])"
          "inflight (instances w2 this) =
             (case waiting (length outs) (drop (Suc i) coll) of
                None \<Rightarrow> [] | Some m \<Rightarrow> [(cid m, cb)])"
          "execution (instances w2 this) =
             (case waiting (length outs) (drop (Suc i) coll) of
                None \<Rightarrow> False | Some m \<Rightarrow> execution (instances ?w this))"
      by blast
    have start: "execution_from this cb (map_option cid (at coll i)) w = Some w1"
      using i False e by (simp add: at_def execution_from_Some code nxt [OF cw])
    from start r res False show ?thesis
      by (simp add: dr focus_end_proj cong: option.case_cong)
  qed
qed

lemma three_cells_facts:
  "collection (instances three_cells 0) =
     [\<lparr>cid = 0, ctype = Code, cvalue = ''1+1'', uniqueCellId = Some 0\<rparr>,
      \<lparr>cid = 1, ctype = Text, cvalue = ''note'', uniqueCellId = None\<rparr>,
      \<lparr>cid = 2, ctype = Code, cvalue = ''2+2'', uniqueCellId = Some 1\<rparr>]"
  "inflight (instances three_cells 0) = []"
  "calls (instances three_cells 0) =
     [MoveCursorToEnd 0 None, MoveCursorToEnd 1 None, MoveCursorToEnd 2 None]"
  by (simp_all add: three_cells_eq)

text \<open>
  C1.  Let the collection hold three distinct cells, \<^verbatim>\<open>Code:"1+1"\<close>, \<^verbatim>\<open>Text:"note"\<close> and
  \<^verbatim>\<open>Code:"2+2"\<close>, with no other run in flight.  \<^verbatim>\<open>execute(cb)\<close> returns after it has
  handed \<^verbatim>\<open>"1+1"\<close> to the sandbox: that is the one call made, the flag is set and the one
  continuation in flight is that of the first cell.  Only when the sandbox completes
  that call, with whatever outcome, does the run pass the text cell and hand \<^verbatim>\<open>"2+2"\<close>
  to the sandbox; again it waits.  When the sandbox completes the second call, with
  whatever outcome, the flag is cleared and \<^verbatim>\<open>cb\<close> is called, once; nothing remains in
  flight.  So the sandbox is called exactly twice, in this order, never twice at once,
  and \<^verbatim>\<open>cb\<close> exactly once, after both calls have completed.
\<close>

theorem execute_three_cells_in_order:
  assumes "collection (instances w this) = [a, b, c]"
    and "distinct [cid a, cid b, cid c]"
    and "ctype a = Code" and "cvalue a = ''1+1''"
    and "ctype b = Text" and "cvalue b = ''note''"
    and "ctype c = Code" and "cvalue c = ''2+2''"
    and "inflight (instances w this) = []"
  shows "\<exists>w1. execute this (Some cb) w = Some (Inr w1) \<and>
           execution (instances w1 this) \<and>
           inflight (instances w1 this) = [(cid a, Some cb)] \<and>
           calls (instances w1 this) = calls (instances w this) @
             [Focus (cid a), MoveCursorToEnd (cid a) None, SandboxExecute (cid a) ''1+1''] \<and>
           (\<forall>out1. \<exists>w2. resolve this 0 out1 w1 = Some w2 \<and>
              execution (instances w2 this) \<and>
              inflight (instances w2 this) = [(cid c, Some cb)] \<and>
              calls (instances w2 this) = calls (instances w1 this) @
                [Focus (cid b), MoveCursorToEnd (cid b) None,
                 Focus (cid c), MoveCursorToEnd (cid c) None, SandboxExecute (cid c) ''2+2''] \<and>
              (\<forall>out2. \<exists>w3. resolve this 0 out2 w2 = Some w3 \<and>
                 \<not> execution (instances w3 this) \<and>
                 inflight (instances w3 this) = [] \<and>
                 calls (instances w3 this) = calls (instances w2 this) @ [Callback cb]))"
  using assms
  by (simp add: execute_def at_def Let_def execution_from_Some execution_from_None
      is_code_def get_def focus_end_def moveCursorToEnd_def focus_def log_call_def
      view_execute_def getValue_def resolve_def getNextView_def getNext_def
      finish_execution_def upd_def)

theorem execute_three_cells_in_order_witness:
  "collection (instances three_cells 0) =
     [\<lparr>cid = 0, ctype = Code, cvalue = ''1+1'', uniqueCellId = Some 0\<rparr>,
      \<lparr>cid = 1, ctype = Text, cvalue = ''note'', uniqueCellId = None\<rparr>,
      \<lparr>cid = 2, ctype = Code, cvalue = ''2+2'', uniqueCellId = Some 1\<rparr>] \<and>
   inflight (instances three_cells 0) = [] \<and>
   (\<exists>w1 w2 w3. execute 0 (Some 7) three_cells = Some (Inr w1) \<and>
      calls (instances w1 0) = calls (instances three_cells 0) @
        [Focus 0, MoveCursorToEnd 0 None, SandboxExecute 0 ''1+1''] \<and>
      resolve 0 0 (Failed ''boom'') w1 = Some w2 \<and>
      calls (instances w2 0) = calls (instances w1 0) @
        [Focus 1, MoveCursorToEnd 1 None, Focus 2, MoveCursorToEnd 2 None,
         SandboxExecute 2 ''2+2''] \<and>
      resolve 0 0 (Succeeded ''4'') w2 = Some w3 \<and>
      calls (instances w3 0) = calls (instances w2 0) @ [Callback 7] \<and>
      \<not> execution (instances w3 0))"
proof -
  let ?a = "\<lparr>cid = 0, ctype = Code, cvalue = ''1+1'', uniqueCellId = Some 0\<rparr>"
  let ?b = "\<lparr>cid = 1, ctype = Text, cvalue = ''note'', uniqueCellId = None\<rparr>"
  let ?c = "\<lparr>cid = 2, ctype = Code, cvalue = ''2+2'', uniqueCellId = Some 1\<rparr>"
  have d: "distinct [cid ?a, cid ?b, cid ?c]" by simp
  from execute_three_cells_in_order [of three_cells 0 ?a ?b ?c 7,
      OF three_cells_facts(1) d _ _ _ _ _ _ three_cells_facts(2)]
  obtain w1 where e: "execute 0 (Some 7) three_cells = Some (Inr w1)"
    and k1: "calls (instances w1 0) = calls (instances three_cells 0) @
        [Focus 0, MoveCursorToEnd 0 None, SandboxExecute 0 ''1+1'']"
    and n1: "\<forall>out1. \<exists>w2. resolve 0 0 out1 w1 = Some w2 \<and>
              execution (instances w2 0) \<and>
              inflight (instances w2 0) = [(2, Some 7)] \<and>
              calls (instances w2 0) = calls (instances w1 0) @
                [Focus 1, MoveCursorToEnd 1 None,
                 Focus 2, MoveCursorToEnd 2 None, SandboxExecute 2 ''2+2''] \<and>
              (\<forall>out2. \<exists>w3. resolve 0 0 out2 w2 = Some w3 \<and>
                 \<not> execution (instances w3 0) \<and>
                 inflight (instances w3 0) = [] \<and>
                 calls (instances w3 0) = calls (instances w2 0) @ [Callback 7])"
    by auto
  from n1 obtain w2 where r1: "resolve 0 0 (Failed ''boom'') w1 = Some w2"
    and k2: "calls (instances w2 0) = calls (instances w1 0) @
                [Focus 1, MoveCursorToEnd 1 None,
                 Focus 2, MoveCursorToEnd 2 None, SandboxExecute 2 ''2+2'']"
    and n2: "\<forall>out2. \<exists>w3. resolve 0 0 out2 w2 = Some w3 \<and>
                 \<not> execution (instances w3 0) \<and>
                 inflight (instances w3 0) = [] \<and>
                 calls (instances w3 0) = calls (instances w2 0) @ [Callback 7]"
    by blast
  from n2 obtain w3 where r2: "resolve 0 0 (Succeeded ''4'') w2 = Some w3"
    and k3: "calls (instances w3 0) = calls (instances w2 0) @ [Callback 7]"
    and x3: "\<not> execution (instances w3 0)"
    by blast
  from e k1 r1 k2 r2 k3 x3 three_cells_facts(1,2) show ?thesis by blast
qed

text \<open>
  C2.  In a well-formed notebook that is not empty, with no other run in flight, start
  \<^verbatim>\<open>execute(cb)\<close> and let the sandbox complete the first \<open>k\<close> calls of the run, one after
  the other, with any outcomes whatever, failures included (\<open>k\<close> is the length of
  \<open>outs\<close>, at most the number of code cells).  Then the run has visited exactly the cells
  up to and including the code cell number \<open>k + 1\<close>, in order, and handed each code cell
  among them to the sandbox once; the continuation of that code cell is the only one in
  flight, the flag is set and the callback has not been called.  So with \<open>k = 0\<close>,
  \<^verbatim>\<open>execute\<close> itself returns at the first code cell, and each completion, whatever it
  reports, moves the run on to the next code cell and no further.  When there is no code
  cell number \<open>k + 1\<close>, which is so when all calls have completed, every cell has been
  visited, nothing is in flight, the flag is cleared and the callback has been called,
  once.  The continuation does not look at \<^verbatim>\<open>(err, result)\<close>: completing a call with one
  outcome or with another leads to the same page.
\<close>

theorem execute_advances_on_completion:
  assumes "well_formed this w" and "collection (instances w this) \<noteq> []"
    and "inflight (instances w this) = []"
    and "length outs \<le> length (filter (\<lambda>m. ctype m = Code) (collection (instances w this)))"
  shows "(\<exists>w1 w2. execute this cb w = Some (Inr w1) \<and>
            resolve_all this outs w1 = Some w2 \<and>
            calls (instances w2 this) =
              calls (instances w this) @
                visit_calls (visited (length outs) (collection (instances w this))) @
                (case waiting (length outs) (collection (instances w this)) of
                   None \<Rightarrow> callback_calls cb | Some m \<Rightarrow> []) \<and>
            inflight (instances w2 this) =
              (case waiting (length outs) (collection (instances w this)) of
                 None \<Rightarrow> [] | Some m \<Rightarrow> [(cid m, cb)]) \<and>
            execution (instances w2 this) =
              (waiting (length outs) (collection (instances w this)) \<noteq> None)) \<and>
         (length outs = length (filter (\<lambda>m. ctype m = Code) (collection (instances w this)))
            \<longrightarrow> visited (length outs) (collection (instances w this)) =
                   collection (instances w this) \<and>
                 waiting (length outs) (collection (instances w this)) = None) \<and>
         (\<forall>k out out' w'. resolve this k out w' = resolve this k out' w')"
proof -
  let ?coll = "collection (instances w this)"
  let ?w0 = "upd this (\<lambda>nb. nb\<lparr>execution := True\<rparr>) w"
  from assms(1) have d: "distinct (map cid ?coll)" by (simp add: well_formed_def)
  have c0: "collection (instances ?w0 this) = ?coll"
    and i0: "inflight (instances ?w0 this) = []"
    and k0: "calls (instances ?w0 this) = calls (instances w this)"
    and x0: "execution (instances ?w0 this)"
    using assms(3) by (simp_all add: upd_def)
  have len: "length outs \<le> length (filter (\<lambda>m. ctype m = Code) (drop 0 ?coll))"
    using assms(4) by simp
  from run_upto [OF d c0 i0 _ len, of cb] obtain w1 w2
    where e: "execution_from this cb (map_option cid (at ?coll 0)) ?w0 = Some w1"
      and r: "resolve_all this outs w1 = Some w2"
      and res: "calls (instances w2 this) =
             calls (instances ?w0 this) @ visit_calls (visited (length outs) (drop 0 ?coll)) @
               (case waiting (length outs) (drop 0 ?coll) of
                  None \<Rightarrow> callback_calls cb | Some m \<Rightarrow> [])"
        "inflight (instances w2 this) =
             (case waiting (length outs) (drop 0 ?coll) of
                None \<Rightarrow> [] | Some m \<Rightarrow> [(cid m, cb)])"
        "execution (instances w2 this) =
             (case waiting (length outs) (drop 0 ?coll) of
                None \<Rightarrow> False | Some m \<Rightarrow> execution (instances ?w0 this))"
    by auto
  have "execute this cb w = Some (Inr w1)"
    using assms(2) e by (simp add: execute_def Let_def c0 at_def)
  with r res k0 x0 have run: "\<exists>w1 w2. execute this cb w = Some (Inr w1) \<and>
            resolve_all this outs w1 = Some w2 \<and>
            calls (instances w2 this) =
              calls (instances w this) @ visit_calls (visited (length outs) ?coll) @
                (case waiting (length outs) ?coll of
                   None \<Rightarrow> callback_calls cb | Some m \<Rightarrow> []) \<and>
            inflight (instances w2 this) =
              (case waiting (length outs) ?coll of
                 None \<Rightarrow> [] | Some m \<Rightarrow> [(cid m, cb)]) \<and>
            execution (instances w2 this) = (waiting (length outs) ?coll \<noteq> None)"
    by (auto split: option.splits)
  have full: "length outs = length (filter (\<lambda>m. ctype m = Code) ?coll)
      \<longrightarrow> visited (length outs) ?coll = ?coll \<and> waiting (length outs) ?coll = None"
    using visited_all [of ?coll "length outs"] by auto
  have "\<forall>k out out' w'. resolve this k out w' = resolve this k out' w'"
    by (simp add: resolve_def)
  with run full show ?thesis by blast
qed

theorem execute_advances_on_completion_witness:
  "well_formed 0 three_cells \<and> collection (instances three_cells 0) \<noteq> [] \<and>
   inflight (instances three_cells 0) = [] \<and>
   (\<exists>w1. execute 0 (Some 7) three_cells = Some (Inr w1) \<and>
      calls (instances w1 0) = calls (instances three_cells 0) @
        [Focus 0, MoveCursorToEnd 0 None, SandboxExecute 0 ''1+1''] \<and>
      inflight (instances w1 0) = [(0, Some 7)] \<and> execution (instances w1 0)) \<and>
   (\<exists>w1 w2. execute 0 (Some 7) three_cells = Some (Inr w1) \<and>
      resolve_all 0 [Failed ''boom''] w1 = Some w2 \<and>
      calls (instances w2 0) = calls (instances three_cells 0) @
        [Focus 0, MoveCursorToEnd 0 None, SandboxExecute 0 ''1+1'',
         Focus 1, MoveCursorToEnd 1 None,
         Focus 2, MoveCursorToEnd 2 None, SandboxExecute 2 ''2+2''] \<and>
      inflight (instances w2 0) = [(2, Some 7)] \<and> execution (instances w2 0)) \<and>
   (\<exists>w1 w2. execute 0 (Some 7) three_cells = Some (Inr w1) \<and>
      resolve_all 0 [Failed ''boom'', Failed ''again''] w1 = Some w2 \<and>
      calls (instances w2 0) = calls (instances three_cells 0) @
        [Focus 0, MoveCursorToEnd 0 None, SandboxExecute 0 ''1+1'',
         Focus 1, MoveCursorToEnd 1 None,
         Focus 2, MoveCursorToEnd 2 None, SandboxExecute 2 ''2+2'',
         Callback 7] \<and>
      inflight (instances w2 0) = [] \<and> \<not> execution (instances w2 0))"
proof -
  have wf3: "well_formed 0 three_cells"
    by (simp add: three_cells_eq well_formed_def)
  have ne: "collection (instances three_cells 0) \<noteq> []"
    by (simp add: three_cells_facts)
  note fl = three_cells_facts(2)
  have l0: "length ([] :: outcome list) \<le>
      length (filter (\<lambda>m. ctype m = Code) (collection (instances three_cells 0)))"
    and l1: "length [Failed ''boom''] \<le>
      length (filter (\<lambda>m. ctype m = Code) (collection (instances three_cells 0)))"
    and l2: "length [Failed ''boom'', Failed ''again''] \<le>
      length (filter (\<lambda>m. ctype m = Code) (collection (instances three_cells 0)))"
    by (simp_all add: three_cells_facts)
  from execute_advances_on_completion [OF wf3 ne fl l0, of "Some 7"]
  have a: "\<exists>w1. execute 0 (Some 7) three_cells = Some (Inr w1) \<and>
      calls (instances w1 0) = calls (instances three_cells 0) @
        [Focus 0, MoveCursorToEnd 0 None, SandboxExecute 0 ''1+1''] \<and>
      inflight (instances w1 0) = [(0, Some 7)] \<and> execution (instances w1 0)"
    by (auto simp add: three_cells_facts(1))
  from execute_advances_on_completion [OF wf3 ne fl l1, of "Some 7"]
  have b: "\<exists>w1 w2. execute 0 (Some 7) three_cells = Some (Inr w1) \<and>
      resolve_all 0 [Failed ''boom''] w1 = Some w2 \<and>
      calls (instances w2 0) = calls (instances three_cells 0) @
        [Focus 0, MoveCursorToEnd 0 None, SandboxExecute 0 ''1+1'',
         Focus 1, MoveCursorToEnd 1 None,
         Focus 2, MoveCursorToEnd 2 None, SandboxExecute 2 ''2+2''] \<and>
      inflight (instances w2 0) = [(2, Some 7)] \<and> execution (instances w2 0)"
    by (auto simp add: three_cells_facts(1))
  from execute_advances_on_completion [OF wf3 ne fl l2, of "Some 7"]
  have c: "\<exists>w1 w2. execute 0 (Some 7) three_cells = Some (Inr w1) \<and>
      resolve_all 0 [Failed ''boom'', Failed ''again''] w1 = Some w2 \<and>
      calls (instances w2 0) = calls (instances three_cells 0) @
        [Focus 0, MoveCursorToEnd 0 None, SandboxExecute 0 ''1+1'',
         Focus 1, MoveCursorToEnd 1 None,
         Focus 2, MoveCursorToEnd 2 None, SandboxExecute 2 ''2+2'',
         Callback 7] \<and>
      inflight (instances w2 0) = [] \<and> \<not> execution (instances w2 0)"
    by (auto simp add: three_cells_facts(1) callback_calls_def)
  from wf3 ne fl a b c show ?thesis by blast
qed

section \<open>Unique ids of code cells\<close>

text \<open>The history of one instance: its counter and the views appended so far.\<close>

lemma hist_frame:
  "uniqueId (instances (save this w) this) = uniqueId (instances w this)"
  "appended (instances (save this w) this) = appended (instances w this)"
  "uniqueId (instances (collection_sort this w) this) = uniqueId (instances w this)"
  "appended (instances (collection_sort this w) this) = appended (instances w this)"
  "uniqueId (instances (collection_remove this m w) this) = uniqueId (instances w this)"
  "appended (instances (collection_remove this m w) this) = appended (instances w this)"
  "uniqueId (instances (collection_push this c w) this) = uniqueId (instances w this)"
  "appended (instances (collection_push this c w) this) = appended (instances w this)"
  "uniqueId (instances (log_call this k w) this) = uniqueId (instances w this)"
  "appended (instances (log_call this k w) this) = appended (instances w this)"
  "uniqueId (instances (setValue this view v w) this) = uniqueId (instances w this)"
  "appended (instances (setValue this view v w) this) = appended (instances w this)"
  by (simp_all add: save_def saveGist_def collection_sort_def collection_remove_def
      collection_push_def log_call_def setValue_def upd_def)

lemma appendView_hist:
  "uniqueId (instances (appendView this view before w) this) =
     (if ctype view = Code then Suc (uniqueId (instances w this)) else uniqueId (instances w this))"
  "appended (instances (appendView this view before w) this) =
     appended (instances w this) @ [assign_id this view w]"
  by (simp_all add: appendView_def Let_def hist_frame) (simp_all add: upd_def)

lemma appendCodeView_hist:
  "uniqueId (instances (snd (appendCodeView this el v w)) this) = Suc (uniqueId (instances w this))"
  "appended (instances (snd (appendCodeView this el v w)) this) =
     appended (instances w this) @
       [\<lparr>cid = idCounter w, ctype = Code, cvalue = [],
         uniqueCellId = Some (uniqueId (instances w this))\<rparr>]"
  by (simp_all add: appendCodeView_def new_view_def Let_def moveCursorToEnd_def hist_frame
      appendView_hist assign_id_def)

lemma appendTextView_hist:
  "uniqueId (instances (snd (appendTextView this el v w)) this) = uniqueId (instances w this)"
  "appended (instances (snd (appendTextView this el v w)) this) =
     appended (instances w this) @
       [\<lparr>cid = idCounter w, ctype = Text, cvalue = [], uniqueCellId = None\<rparr>]"
  by (simp_all add: appendTextView_def new_view_def Let_def moveCursorToEnd_def hist_frame
      appendView_hist assign_id_def)


lemma on_remove_hist:
  "(uniqueId (instances (on_remove this view w) this) = uniqueId (instances w this) \<and>
    appended (instances (on_remove this view w) this) = appended (instances w this)) \<or>
   (uniqueId (instances (on_remove this view w) this) = Suc (uniqueId (instances w this)) \<and>
    appended (instances (on_remove this view w) this) =
      appended (instances w this) @
        [\<lparr>cid = idCounter w, ctype = Code, cvalue = [],
          uniqueCellId = Some (uniqueId (instances w this))\<rparr>])"
  by (simp add: on_remove_def Let_def hist_frame moveCursorToEnd_def focus_def
      appendCodeView_hist split: option.splits)

lemma view_remove_hist:
  "(uniqueId (instances (view_remove this view w) this) = uniqueId (instances w this) \<and>
    appended (instances (view_remove this view w) this) = appended (instances w this)) \<or>
   (uniqueId (instances (view_remove this view w) this) = Suc (uniqueId (instances w this)) \<and>
    appended (instances (view_remove this view w) this) =
      appended (instances w this) @
        [\<lparr>cid = idCounter w, ctype = Code, cvalue = [],
          uniqueCellId = Some (uniqueId (instances w this))\<rparr>])"
  using on_remove_hist [of this view w] by (simp add: view_remove_def upd_def)

lemma ids_ok_code:
  assumes "ids_ok this w"
    and "uniqueId (instances w' this) = Suc (uniqueId (instances w this))"
    and "appended (instances w' this) = appended (instances w this) @
          [\<lparr>cid = c, ctype = Code, cvalue = v,
            uniqueCellId = Some (uniqueId (instances w this))\<rparr>]"
  shows "ids_ok this w'"
  using assms by (simp add: ids_ok_def code_ids_def text_ids_def)

lemma ids_ok_text:
  assumes "ids_ok this w"
    and "uniqueId (instances w' this) = uniqueId (instances w this)"
    and "appended (instances w' this) = appended (instances w this) @
          [\<lparr>cid = c, ctype = Text, cvalue = v, uniqueCellId = None\<rparr>]"
  shows "ids_ok this w'"
proof -
  from assms(1) have t: "text_ids (appended (instances w this)) =
      replicate (length (text_ids (appended (instances w this)))) None"
    by (simp add: ids_ok_def)
  have "text_ids (appended (instances w' this)) =
      text_ids (appended (instances w this)) @ [None]"
    by (simp add: assms(3) text_ids_def)
  also have "\<dots> = replicate (Suc (length (text_ids (appended (instances w this))))) None"
    by (subst t) (simp add: replicate_append_same)
  finally have "text_ids (appended (instances w' this)) =
      replicate (length (text_ids (appended (instances w' this)))) None"
    by (simp add: assms(3) text_ids_def)
  with assms show ?thesis by (simp add: ids_ok_def code_ids_def)
qed

lemma ids_ok_same:
  assumes "ids_ok this w"
    and "uniqueId (instances w' this) = uniqueId (instances w this)"
    and "appended (instances w' this) = appended (instances w this)"
  shows "ids_ok this w'"
  using assms by (simp add: ids_ok_def)

lemma apply_op_ids_ok:
  assumes "ids_ok this w"
  shows "ids_ok this (apply_op this w x)"
proof (cases x)
  case (AppendCode el v)
  with ids_ok_code [OF assms appendCodeView_hist] show ?thesis by simp
next
  case (AppendText el v)
  with ids_ok_text [OF assms appendTextView_hist] show ?thesis by simp
next
  case (Remove view)
  from view_remove_hist [of this view w] show ?thesis
  proof
    assume "uniqueId (instances (view_remove this view w) this) = uniqueId (instances w this) \<and>
      appended (instances (view_remove this view w) this) = appended (instances w this)"
    then show ?thesis using ids_ok_same [OF assms] Remove by simp
  next
    assume "uniqueId (instances (view_remove this view w) this) = Suc (uniqueId (instances w this)) \<and>
      appended (instances (view_remove this view w) this) =
        appended (instances w this) @
          [\<lparr>cid = idCounter w, ctype = Code, cvalue = [],
            uniqueCellId = Some (uniqueId (instances w this))\<rparr>]"
    then show ?thesis using ids_ok_code [OF assms] Remove by simp
  qed
qed

lemma apply_op_counter:
  "uniqueId (instances (apply_op this w x) this) \<ge>
     uniqueId (instances w this) + (if is_append_code x then 1 else 0)"
proof (cases x)
  case (AppendCode el v)
  then show ?thesis by (simp add: appendCodeView_hist)
next
  case (AppendText el v)
  then show ?thesis by (simp add: appendTextView_hist)
next
  case (Remove view)
  with view_remove_hist [of this view w] show ?thesis by auto
qed

lemma run_ops_ids_ok:
  "ids_ok this w \<Longrightarrow> ids_ok this (run_ops this ops w)"
  unfolding run_ops_def
  by (induction ops arbitrary: w) (simp_all add: apply_op_ids_ok)

lemma run_ops_counter:
  "uniqueId (instances w this) + length (filter is_append_code ops)
     \<le> uniqueId (instances (run_ops this ops w) this)"
  unfolding run_ops_def
proof (induction ops arbitrary: w)
  case Nil
  then show ?case by simp
next
  case (Cons x xs)
  from Cons.IH [of "apply_op this w x"] apply_op_counter [of w this x]
  show ?case by (simp split: if_splits)
qed

lemma run_ops_Cons: "run_ops this (x # xs) w = run_ops this xs (apply_op this w x)"
  by (simp add: run_ops_def)

lemma caller_ids_shape:
  "\<exists>ks. caller_ids this w ops = map Some ks \<and>
        length ks = length (filter is_append_code ops) \<and>
        sorted_wrt (<) ks \<and>
        (\<forall>k \<in> set ks. uniqueId (instances w this) \<le> k \<and>
                        k < uniqueId (instances (run_ops this ops w) this)) \<and>
        (uniqueId (instances (run_ops this ops w) this) =
           uniqueId (instances w this) + length ks \<longrightarrow>
         ks = [uniqueId (instances w this) ..< uniqueId (instances w this) + length ks])"
proof (induction ops arbitrary: w)
  case Nil
  then show ?case by (simp add: run_ops_def)
next
  case (Cons x xs)
  let ?u = "uniqueId (instances w this)"
  let ?w' = "apply_op this w x"
  let ?fin = "uniqueId (instances (run_ops this xs ?w') this)"
  from Cons.IH [of ?w'] obtain ks
    where ids: "caller_ids this ?w' xs = map Some ks"
      and len: "length ks = length (filter is_append_code xs)"
      and srt: "sorted_wrt (<) ks"
      and bnd: "\<forall>k \<in> set ks. uniqueId (instances ?w' this) \<le> k \<and> k < ?fin"
      and exact: "?fin = uniqueId (instances ?w' this) + length ks \<longrightarrow>
                  ks = [uniqueId (instances ?w' this) ..<
                        uniqueId (instances ?w' this) + length ks]"
    by blast
  have grow: "uniqueId (instances ?w' this) + length ks \<le> ?fin"
    using run_ops_counter [of ?w' this xs] len by simp
  show ?case
  proof (cases x)
    case (AppendCode el v)
    have u': "uniqueId (instances ?w' this) = Suc ?u"
      and last': "uniqueCellId (last (appended (instances ?w' this))) = Some ?u"
      by (simp_all add: AppendCode appendCodeView_hist)
    have "caller_ids this w (x # xs) = map Some (?u # ks)"
      using ids last' by (simp add: AppendCode)
    moreover have "length (?u # ks) = length (filter is_append_code (x # xs))"
      using len by (simp add: AppendCode)
    moreover have "sorted_wrt (<) (?u # ks)"
      using srt bnd u' by auto
    moreover have "\<forall>k \<in> set (?u # ks). ?u \<le> k \<and>
        k < uniqueId (instances (run_ops this (x # xs) w) this)"
      using bnd u' grow by (auto simp add: run_ops_Cons)
    moreover have "uniqueId (instances (run_ops this (x # xs) w) this) =
        ?u + length (?u # ks) \<longrightarrow> ?u # ks = [?u ..< ?u + length (?u # ks)]"
    proof
      assume "uniqueId (instances (run_ops this (x # xs) w) this) = ?u + length (?u # ks)"
      then have "?fin = Suc ?u + length ks" by (simp add: run_ops_Cons)
      with exact u' have k: "ks = [Suc ?u ..< Suc ?u + length ks]" by simp
      have r: "[?u ..< ?u + length (?u # ks)] = ?u # [Suc ?u ..< Suc ?u + length ks]"
        by (simp add: upt_conv_Cons del: upt_Suc)
      show "?u # ks = [?u ..< ?u + length (?u # ks)]"
        unfolding r by (rule arg_cong [OF k])
    qed
    ultimately show ?thesis by blast
  next
    case (AppendText el v)
    have u': "uniqueId (instances ?w' this) = ?u"
      by (simp add: AppendText appendTextView_hist)
    from ids len srt bnd exact u' show ?thesis
      by (intro exI [of _ ks]) (simp add: AppendText run_ops_Cons)
  next
    case (Remove view)
    from view_remove_hist [of this view w]
    have u': "uniqueId (instances ?w' this) = ?u \<or> uniqueId (instances ?w' this) = Suc ?u"
      by (auto simp add: Remove)
    then show ?thesis
    proof
      assume "uniqueId (instances ?w' this) = ?u"
      with ids len srt bnd exact show ?thesis
        by (intro exI [of _ ks]) (simp add: Remove run_ops_Cons)
    next
      assume s: "uniqueId (instances ?w' this) = Suc ?u"
      with grow have "?fin \<noteq> ?u + length ks" by simp
      with s ids len srt bnd show ?thesis
        by (intro exI [of _ ks]) (auto simp add: Remove run_ops_Cons)
    qed
  qed
qed

lemma run_ops_no_remove:
  "filter is_remove ops = [] \<Longrightarrow>
   uniqueId (instances (run_ops this ops w) this) =
     uniqueId (instances w this) + length (filter is_append_code ops)"
proof (induction ops arbitrary: w)
  case Nil
  then show ?case by (simp add: run_ops_def)
next
  case (Cons x xs)
  then have "filter is_remove xs = []" by (simp split: if_splits)
  from Cons.IH [OF this, of "apply_op this w x"] Cons.prems show ?case
    by (cases x) (simp_all add: run_ops_Cons appendCodeView_hist appendTextView_hist)
qed

text \<open>
  C3, as the claim states it, fails.  The \<^verbatim>\<open>remove\<close> handler appends a code cell of its
  own when the only cell is removed (line 219), and that cell takes the next id (line 310).
  On a new instance, append a code cell, remove it, append a code cell: of the two code
  cells the caller appended, the first holds id 0 and the second id 2, not 1.
\<close>

theorem caller_ids_skip_counterexample:
  "length (filter is_append_code [AppendCode None ''a'', Remove 0, AppendCode None ''b'']) = 2 \<and>
   caller_ids 0 empty_notebook [AppendCode None ''a'', Remove 0, AppendCode None ''b'']
     = [Some 0, Some 2]"
  by (simp add: empty_notebook_def boot_def view_remove_def on_remove_def
      getNextView_def getPrevView_def getNext_def getPrev_def at_def insertAfter_def
      sort_by_dom_def dom_position_def model_defs Let_def eval_nat_numeral)

text \<open>
  C3, amended.  Start from a new instance and let a caller append code cells, append text
  cells and remove cell views, in any order and number; let \<open>N\<close> be the number of the
  caller's code appends.  Every code view that goes through \<^verbatim>\<open>appendView\<close>, the caller's
  and any that a \<^verbatim>\<open>remove\<close> handler appends, is given the current value of the counter,
  which then grows by one: read in call order, the ids of all these \<open>M\<close> code views are
  \<open>0, 1, \<dots>, M - 1\<close>, and \<open>N \<le> M\<close>.  Text views are given no id.  The ids of the caller's \<open>N\<close> code cells, in call order, are strictly
  increasing numbers below \<open>M\<close>, so none is given twice, whatever was removed in between.
  They are exactly \<open>0, 1, \<dots>, N - 1\<close> when the handler has appended no code cell
  (\<open>M = N\<close>), and this is so whenever the sequence holds no removal.
\<close>

theorem code_ids_count_up:
  "let w1 = initialize this user g coll ser deser w0;
       nb = instances (run_ops this ops w1) this;
       M = length (code_ids (appended nb));
       N = length (filter is_append_code ops)
   in code_ids (appended nb) = map Some [0..<M] \<and>
      text_ids (appended nb) = replicate (length (text_ids (appended nb))) None \<and>
      uniqueId nb = M \<and> N \<le> M \<and>
      (\<exists>ks. caller_ids this w1 ops = map Some ks \<and> length ks = N \<and>
            sorted_wrt (<) ks \<and> set ks \<subseteq> {0..<M} \<and> (M = N \<longrightarrow> ks = [0..<N])) \<and>
      (filter is_remove ops = [] \<longrightarrow> M = N)"
proof -
  let ?w = "initialize this user g coll ser deser w0"
  let ?nb = "instances (run_ops this ops ?w) this"
  let ?M = "length (code_ids (appended ?nb))"
  let ?N = "length (filter is_append_code ops)"
  have u0: "uniqueId (instances ?w this) = 0" by (simp add: initialize_def)
  have "ids_ok this ?w"
    by (simp add: ids_ok_def initialize_def code_ids_def text_ids_def)
  then have ok: "ids_ok this (run_ops this ops ?w)" by (rule run_ops_ids_ok)
  then have M: "uniqueId ?nb = ?M" by (simp add: ids_ok_def)
  from ok M have a: "code_ids (appended ?nb) = map Some [0..<?M]"
    and b: "text_ids (appended ?nb) = replicate (length (text_ids (appended ?nb))) None"
    by (simp_all add: ids_ok_def)
  from run_ops_counter [of ?w this ops] u0 M have c: "?N \<le> ?M" by simp
  from caller_ids_shape [of this ?w ops] u0 M obtain ks
    where ids: "caller_ids this ?w ops = map Some ks" and len: "length ks = ?N"
      and srt: "sorted_wrt (<) ks"
      and bnd: "\<forall>k \<in> set ks. k < ?M"
      and exact: "?M = length ks \<longrightarrow> ks = [0..<length ks]"
    by auto
  from bnd have sub: "set ks \<subseteq> {0..<?M}" by auto
  from exact len have e: "?M = ?N \<longrightarrow> ks = [0..<?N]" by simp
  from ids len srt sub e
  have d: "\<exists>ks. caller_ids this ?w ops = map Some ks \<and> length ks = ?N \<and>
            sorted_wrt (<) ks \<and> set ks \<subseteq> {0..<?M} \<and> (?M = ?N \<longrightarrow> ks = [0..<?N])"
    by blast
  have f: "filter is_remove ops = [] \<longrightarrow> ?M = ?N"
    using run_ops_no_remove [of ops this ?w] u0 M by simp
  from a b M c d f show ?thesis unfolding Let_def by blast
qed

theorem code_ids_count_up_witness:
  "caller_ids 0 empty_notebook
     [AppendCode None ''a'', AppendText None ''t'', Remove 1, AppendCode None ''b'']
     = [Some 0, Some 1] \<and>
   filter is_remove [AppendCode None ''a'', AppendText None ''t'', AppendCode None ''b''] = [] \<and>
   caller_ids 0 empty_notebook
     [AppendCode None ''a'', AppendText None ''t'', AppendCode None ''b'']
     = [Some 0, Some 1]"
proof -
  let ?ops1 = "[AppendCode None ''a'', AppendText None ''t'', Remove 1, AppendCode None ''b'']"
  let ?ops2 = "[AppendCode None ''a'', AppendText None ''t'', AppendCode None ''b'']"
  have u1: "uniqueId (instances (run_ops 0 ?ops1 empty_notebook) 0) = 2"
    by (simp add: run_ops_def empty_notebook_def boot_def view_remove_def on_remove_def
        getNextView_def getPrevView_def getNext_def getPrev_def at_def insertAfter_def
        sort_by_dom_def dom_position_def model_defs Let_def eval_nat_numeral)
  note th1 = code_ids_count_up [of 0 "Some 1" owned_gist "[]" serialize_values "\<lambda>_. []" boot
      ?ops1, folded empty_notebook_def, unfolded Let_def]
  from th1 u1 have m1: "length (code_ids (appended (instances
      (run_ops 0 ?ops1 empty_notebook) 0))) = 2"
    by simp
  from th1 obtain ks where k1: "caller_ids 0 empty_notebook ?ops1 = map Some ks"
    and e1: "length (code_ids (appended (instances (run_ops 0 ?ops1 empty_notebook) 0))) =
             length (filter is_append_code ?ops1) \<longrightarrow>
             ks = [0..<length (filter is_append_code ?ops1)]"
    by blast
  from e1 m1 have "ks = [0, 1]" by simp
  with k1 have r1: "caller_ids 0 empty_notebook ?ops1 = [Some 0, Some 1]"
    by simp
  note th2 = code_ids_count_up [of 0 "Some 1" owned_gist "[]" serialize_values "\<lambda>_. []" boot
      ?ops2, folded empty_notebook_def, unfolded Let_def]
  have nr: "filter is_remove ?ops2 = []" by simp
  from th2 nr have m2: "length (code_ids (appended (instances
      (run_ops 0 ?ops2 empty_notebook) 0))) = length (filter is_append_code ?ops2)"
    by blast
  from th2 obtain ks' where k2: "caller_ids 0 empty_notebook ?ops2 = map Some ks'"
    and e2: "length (code_ids (appended (instances (run_ops 0 ?ops2 empty_notebook) 0))) =
             length (filter is_append_code ?ops2) \<longrightarrow>
             ks' = [0..<length (filter is_append_code ?ops2)]"
    by blast
  from e2 m2 have "ks' = [0, 1]" by simp
  with k2 have r2: "caller_ids 0 empty_notebook ?ops2 = [Some 0, Some 1]"
    by simp
  from r1 nr r2 show ?thesis by blast
qed

end
